theory Spec2Isabelle
  imports Main "HOL-Library.Sublist"
begin

section \<open>Stored values and the storage engine\<close>

text \<open>
  The two scripts drive SQLite through SQL text. A stored value has one of the five
  storage classes. Floating point is not modelled: a REAL value is an element of an
  arbitrary type \<open>'f\<close>, and what the engine does with it is a parameter of the model
  (\<open>engine\<close>): its rendering as text, the conversion of an integer to a REAL, the
  integer a REAL is exactly equal to (if any), and the numeric reading of a text.
  Text and blobs are byte strings.
\<close>

datatype 'f sqlval = SNull | SInt int | SReal 'f | SText string | SBlob string

record 'f engine =
  real_text :: "'f \<Rightarrow> string"
  int_real :: "int \<Rightarrow> 'f"
  real_exact :: "'f \<Rightarrow> int option"
  text_num :: "string \<Rightarrow> (int + 'f) option"

text \<open>Decimal rendering of an integer, as \<open>CAST(i AS TEXT)\<close> gives it.\<close>

definition digit_char :: "nat \<Rightarrow> char" where
  "digit_char d = char_of (48 + d)"

fun dec_digits :: "nat \<Rightarrow> string" where
  "dec_digits n =
     (if n < 10 then [digit_char n] else dec_digits (n div 10) @ [digit_char (n mod 10)])"

definition dec_text :: "int \<Rightarrow> string" where
  "dec_text i = (if i < 0 then CHR ''-'' # dec_digits (nat (- i)) else dec_digits (nat i))"

text \<open>\<open>CAST(v AS TEXT)\<close> and \<open>ifnull(a, b)\<close>.\<close>

fun cast_text :: "'f engine \<Rightarrow> 'f sqlval \<Rightarrow> 'f sqlval" where
  "cast_text E SNull = SNull"
| "cast_text E (SInt i) = SText (dec_text i)"
| "cast_text E (SReal x) = SText (real_text E x)"
| "cast_text E (SText s) = SText s"
| "cast_text E (SBlob b) = SText b"

fun ifnull :: "'f sqlval \<Rightarrow> 'f sqlval \<Rightarrow> 'f sqlval" where
  "ifnull SNull b = b"
| "ifnull a b = a"

text \<open>
  Column affinity: the conversion applied to a value when it is stored in a column
  of a declared type. \<open>TEXT\<close> columns turn numbers into text; \<open>INTEGER\<close>
  columns turn numeric text into a number and a REAL that is exactly a 64-bit integer
  into that integer; \<open>FLOAT\<close> columns (REAL affinity) turn numeric text into a
  number and an integer into a REAL.
\<close>

datatype affinity = TEXT | INTEGER | FLOAT

fun numeric_affinity :: "'f engine \<Rightarrow> 'f sqlval \<Rightarrow> 'f sqlval" where
  "numeric_affinity E (SText s) =
     (case text_num E s of None \<Rightarrow> SText s | Some (Inl i) \<Rightarrow> SInt i | Some (Inr x) \<Rightarrow> SReal x)"
| "numeric_affinity E v = v"

definition real_to_integer :: "'f engine \<Rightarrow> 'f \<Rightarrow> 'f sqlval" where
  "real_to_integer E x =
     (case real_exact E x of
        None \<Rightarrow> SReal x
      | Some i \<Rightarrow> if - (2 ^ 63) < i \<and> i < 2 ^ 63 - 1 then SInt i else SReal x)"

fun apply_affinity :: "'f engine \<Rightarrow> affinity \<Rightarrow> 'f sqlval \<Rightarrow> 'f sqlval" where
  "apply_affinity E TEXT v =
     (case v of SInt i \<Rightarrow> SText (dec_text i) | SReal x \<Rightarrow> SText (real_text E x) | _ \<Rightarrow> v)"
| "apply_affinity E INTEGER v =
     (case numeric_affinity E v of SReal x \<Rightarrow> real_to_integer E x | w \<Rightarrow> w)"
| "apply_affinity E FLOAT v =
     (case numeric_affinity E v of SInt i \<Rightarrow> SReal (int_real E i) | w \<Rightarrow> w)"

section \<open>Record schema\<close>

text \<open>
  The seventeen non-id columns of \<open>credible_set_table\<close>, and their declared types in
  the \<open>CREATE TABLE\<close> statement (the same statement in both scripts).
\<close>

datatype column =
    study_id | study_label | dataset_id | molecular_trait_id | gene_id | gene_name
  | variant | rsid | quantification_method | credible_set | credible_set_size
  | pip | pvalue | beta | se | dataset_label | plot_variant

fun column_affinity :: "column \<Rightarrow> affinity" where
  "column_affinity credible_set_size = INTEGER"
| "column_affinity pip = FLOAT"
| "column_affinity pvalue = FLOAT"
| "column_affinity beta = FLOAT"
| "column_affinity se = FLOAT"
| "column_affinity c = TEXT"

text \<open>\<open>NON_ID_COLUMNS\<close> of merge_qts_sqlite_list.py.\<close>

definition NON_ID_COLUMNS :: "column list" where
  "NON_ID_COLUMNS =
     [study_id, study_label, dataset_id, molecular_trait_id, gene_id, gene_name,
      variant, rsid, quantification_method, credible_set, credible_set_size,
      pip, pvalue, beta, se, dataset_label, plot_variant]"

text \<open>\<open>NON_ID_COLUMNS\<close> of extract_duplicate_rows_to_sqlite.py.\<close>

definition NON_ID_COLUMNS_extract :: "column list" where
  "NON_ID_COLUMNS_extract =
     [study_id, study_label, dataset_id, molecular_trait_id, gene_id, gene_name,
      variant, rsid, quantification_method, credible_set, credible_set_size,
      pip, pvalue, beta, se, dataset_label, plot_variant]"

text \<open>
  A row is its id and its seventeen attribute values; a table is the list of its rows
  in storage order.
\<close>

record 'f row =
  row_id :: int
  cols :: "column \<Rightarrow> 'f sqlval"

type_synonym 'f table = "'f row list"

text \<open>The values a row holds once inserted into a table of the declared schema.\<close>

definition stored :: "'f engine \<Rightarrow> (column \<Rightarrow> 'f sqlval) \<Rightarrow> (column \<Rightarrow> 'f sqlval)" where
  "stored E vals = (\<lambda>c. apply_affinity E (column_affinity c) (vals c))"

section \<open>Merge engine (merge_qts_sqlite_list.py)\<close>

text \<open>
  \<open>create_output_table\<close> puts a unique index on the expressions
  \<open>ifnull(CAST(column AS TEXT), '__NULL__')\<close>, one per non-id column. \<open>dedup_expr\<close>
  is the index key of a row holding the values \<open>vals\<close>.
\<close>

definition dedup_expr :: "'f engine \<Rightarrow> (column \<Rightarrow> 'f sqlval) \<Rightarrow> 'f sqlval list" where
  "dedup_expr E vals =
     map (\<lambda>column. ifnull (cast_text E (vals column)) (SText ''__NULL__'')) NON_ID_COLUMNS"

text \<open>
  Two index keys violate a \<open>UNIQUE\<close> index when they are equal and hold no NULL:
  the engine takes a NULL in a unique index to differ from every value, NULL included.
\<close>

definition uq_conflict :: "'f sqlval list \<Rightarrow> 'f sqlval list \<Rightarrow> bool" where
  "uq_conflict k1 k2 = (k1 = k2 \<and> SNull \<notin> set k1)"

text \<open>
  The id given to a row inserted without one into a table whose key is
  \<open>INTEGER PRIMARY KEY\<close>: one more than the largest id present, 1 in an empty table.
  (The engine departs from this only when the largest id is \<open>2^63 - 1\<close>.)
\<close>

definition new_rowid :: "'f table \<Rightarrow> int" where
  "new_rowid tbl = (if tbl = [] then 1 else Max (set (map row_id tbl)) + 1)"

text \<open>
  \<open>INSERT OR IGNORE\<close> of one row of values: the values are converted by the column
  affinities; when the index key of the converted row conflicts with the key of a row of
  the table the insertion is skipped, otherwise the row is appended under a new id.
\<close>

definition insert_or_ignore :: "'f engine \<Rightarrow> 'f table \<Rightarrow> (column \<Rightarrow> 'f sqlval) \<Rightarrow> 'f table" where
  "insert_or_ignore E tbl vals =
     (let v = stored E vals in
      if \<exists>r \<in> set tbl. uq_conflict (dedup_expr E (cols r)) (dedup_expr E v)
      then tbl
      else tbl @ [\<lparr>row_id = new_rowid tbl, cols = v\<rparr>])"

text \<open>
  \<open>insert_new_rows\<close>: \<open>INSERT OR IGNORE ... SELECT <the non-id columns> FROM
  alias.credible_set_table ORDER BY id\<close>. Rows of equal id (none in a table whose id is
  a primary key) are taken in storage order.
\<close>

definition insert_new_rows :: "'f engine \<Rightarrow> 'f table \<Rightarrow> 'f table \<Rightarrow> 'f table" where
  "insert_new_rows E tbl src = foldl (insert_or_ignore E) tbl (map cols (sort_key row_id src))"

section \<open>Files\<close>

text \<open>
  A path names a directory, a text file, or an SQLite database; of a database only
  \<open>credible_set_table\<close> matters, which may be missing (or lack the columns read).
  A file system maps the paths that exist to what they hold.
\<close>

datatype 'f entry = Directory | TextFile string | Database "'f table option"

type_synonym 'f filesystem = "string \<Rightarrow> 'f entry option"

datatype error =
    ListFileDoesNotExist string
  | ExpectedAbsolutePath string
  | InputSqliteDoesNotExist string
  | NoSqlitePaths string
  | OSError
  | UnicodeDecodeError
  | OperationalError
  | IntegrityError

text \<open>
  \<open>Path(p).resolve()\<close>: a relative path is joined to the working directory, and the
  operating system's canonical form of the result is taken (\<open>realpath\<close>, a parameter).
\<close>

record env =
  cwd :: string
  realpath :: "string \<Rightarrow> string"

definition is_absolute :: "string \<Rightarrow> bool" where
  "is_absolute p = (case p of [] \<Rightarrow> False | c # _ \<Rightarrow> c = CHR ''/'')"

definition resolve :: "env \<Rightarrow> string \<Rightarrow> string" where
  "resolve ev p = realpath ev (if is_absolute p then p else cwd ev @ ''/'' @ p)"

definition exists_path :: "'f filesystem \<Rightarrow> string \<Rightarrow> bool" where
  "exists_path fs p = (fs p \<noteq> None)"

text \<open>
  The lines a text file yields when iterated over: each line ends with its line break,
  given as a line feed whether the file has LF, CR or CR LF; the last line may have none.
\<close>

fun text_lines :: "string \<Rightarrow> string \<Rightarrow> string list" where
  "text_lines acc [] = (if acc = [] then [] else [rev acc])"
| "text_lines acc [c] =
     (if c = CHR 0x0A \<or> c = CHR 0x0D then [rev (CHR 0x0A # acc)] else [rev (c # acc)])"
| "text_lines acc (c # d # cs) =
     (if c = CHR 0x0D \<and> d = CHR 0x0A then rev (CHR 0x0A # acc) # text_lines [] cs
      else if c = CHR 0x0A \<or> c = CHR 0x0D then rev (CHR 0x0A # acc) # text_lines [] (d # cs)
      else text_lines (c # acc) (d # cs))"

text \<open>\<open>str.strip()\<close>: the white space of Python among the first 256 code points.\<close>

definition is_space :: "char \<Rightarrow> bool" where
  "is_space c = (of_char c \<in> {9, 10, 11, 12, 13, 28, 29, 30, 31, 32, 133, 160 :: nat})"

definition strip :: "string \<Rightarrow> string" where
  "strip s = rev (dropWhile is_space (rev (dropWhile is_space s)))"

text \<open>The loop of \<open>read_sqlite_paths\<close> over the lines, \<open>paths\<close> being the list built so far.\<close>

fun read_lines :: "env \<Rightarrow> 'f filesystem \<Rightarrow> string list \<Rightarrow> string list \<Rightarrow> error + string list" where
  "read_lines ev fs paths [] = Inr paths"
| "read_lines ev fs paths (raw_line # rest) =
     (let line = strip raw_line in
      if line = [] then read_lines ev fs paths rest
      else let path = resolve ev line in
        if \<not> is_absolute path then Inl (ExpectedAbsolutePath line)
        else if \<not> exists_path fs path then Inl (InputSqliteDoesNotExist path)
        else read_lines ev fs (paths @ [path]) rest)"

text \<open>
  \<open>read_sqlite_paths\<close> of merge_qts_sqlite_list.py. Opening a directory fails, and the
  bytes of a database are taken not to decode as UTF-8 text.
\<close>

definition read_sqlite_paths :: "env \<Rightarrow> 'f filesystem \<Rightarrow> string \<Rightarrow> error + string list" where
  "read_sqlite_paths ev fs list_file =
     (case fs list_file of
        None \<Rightarrow> Inl (ListFileDoesNotExist list_file)
      | Some Directory \<Rightarrow> Inl OSError
      | Some (Database t) \<Rightarrow> Inl UnicodeDecodeError
      | Some (TextFile content) \<Rightarrow>
          (case read_lines ev fs [] (text_lines [] content) of
             Inl e \<Rightarrow> Inl e
           | Inr paths \<Rightarrow> if paths = [] then Inl (NoSqlitePaths list_file) else Inr paths))"

text \<open>\<open>read_sqlite_paths\<close> of extract_duplicate_rows_to_sqlite.py (the same text).\<close>

definition read_sqlite_paths_extract :: "env \<Rightarrow> 'f filesystem \<Rightarrow> string \<Rightarrow> error + string list" where
  "read_sqlite_paths_extract ev fs list_file =
     (case fs list_file of
        None \<Rightarrow> Inl (ListFileDoesNotExist list_file)
      | Some Directory \<Rightarrow> Inl OSError
      | Some (Database t) \<Rightarrow> Inl UnicodeDecodeError
      | Some (TextFile content) \<Rightarrow>
          (case read_lines ev fs [] (text_lines [] content) of
             Inl e \<Rightarrow> Inl e
           | Inr paths \<Rightarrow> if paths = [] then Inl (NoSqlitePaths list_file) else Inr paths))"

section \<open>Merging the listed sources\<close>

text \<open>
  What a statement reading \<open>credible_set_table\<close> of the database at a path gets: its
  rows, or an error when the path holds no database with that table.
\<close>

definition query_table :: "'f filesystem \<Rightarrow> string \<Rightarrow> error + 'f table" where
  "query_table fs p =
     (case fs p of Some (Database (Some t)) \<Rightarrow> Inr t | _ \<Rightarrow> Inl OperationalError)"

text \<open>
  \<open>merge_inputs\<close>: each source in turn is attached, counted, inserted from and committed.
  The connection's own database is the file at \<open>out\<close>; the file system after each
  commit is the state passed on. An error leaves what earlier sources committed.
\<close>

fun merge_inputs ::
  "'f engine \<Rightarrow> 'f filesystem \<Rightarrow> string \<Rightarrow> string list
     \<Rightarrow> 'f filesystem \<times> (error + (string \<times> int) list)" where
  "merge_inputs E fs out [] = (fs, Inr [])"
| "merge_inputs E fs out (source_path # rest) =
     (case query_table fs source_path of
        Inl e \<Rightarrow> (fs, Inl e)
      | Inr src \<Rightarrow>
          (case query_table fs out of
             Inl e \<Rightarrow> (fs, Inl e)
           | Inr tbl \<Rightarrow>
               (case merge_inputs E (fs(out \<mapsto> Database (Some (insert_new_rows E tbl src)))) out rest of
                  (fs', Inl e) \<Rightarrow> (fs', Inl e)
                | (fs', Inr counts) \<Rightarrow> (fs', Inr ((source_path, int (length src)) # counts)))))"

text \<open>\<open>Path.unlink\<close>: removes a file; fails on a directory.\<close>

definition unlink :: "'f filesystem \<Rightarrow> string \<Rightarrow> error + 'f filesystem" where
  "unlink fs p = (case fs p of Some Directory \<Rightarrow> Inl OSError | _ \<Rightarrow> Inr (fs(p := None)))"

record args =
  arg_input_list :: string
  arg_output_sqlite :: string

record report =
  per_file_counts :: "(string \<times> int) list"
  total_input_rows :: int
  merged_rows :: int
  duplicate_rows_removed :: int

text \<open>
  Connecting to the output path and \<open>create_output_table\<close>: the connection opens the
  database at the path, or a new one when nothing is there (a directory or a text file is
  no database); \<open>CREATE TABLE\<close> fails when the database already has the table, and
  otherwise leaves the empty table with its unique index.
\<close>

definition create_output_table :: "'f filesystem \<Rightarrow> string \<Rightarrow> error + 'f filesystem" where
  "create_output_table fs p =
     (case fs p of
        None \<Rightarrow> Inr (fs(p \<mapsto> Database (Some [])))
      | Some (Database None) \<Rightarrow> Inr (fs(p \<mapsto> Database (Some [])))
      | Some (Database (Some t)) \<Rightarrow> Inl OperationalError
      | Some (TextFile content) \<Rightarrow> Inl OperationalError
      | Some Directory \<Rightarrow> Inl OperationalError)"

text \<open>
  \<open>main\<close> of merge_qts_sqlite_list.py: the file system it leaves and the figures it
  prints, or the error it stops with. Creating the parent directories of the output is not
  modelled (directories are only looked at), nor are the indexes \<open>create_final_indexes\<close>
  builds, which change no row.
\<close>

definition main ::
  "'f engine \<Rightarrow> env \<Rightarrow> 'f filesystem \<Rightarrow> args \<Rightarrow> 'f filesystem \<times> (error + report)" where
  "main E ev fs a =
     (let input_list = resolve ev (arg_input_list a);
          output_sqlite = resolve ev (arg_output_sqlite a)
      in case read_sqlite_paths ev fs input_list of
           Inl e \<Rightarrow> (fs, Inl e)
         | Inr input_paths \<Rightarrow>
             (case (if exists_path fs output_sqlite then unlink fs output_sqlite else Inr fs) of
                Inl e \<Rightarrow> (fs, Inl e)
              | Inr fs1 \<Rightarrow>
                  (case create_output_table fs1 output_sqlite of
                     Inl e \<Rightarrow> (fs1, Inl e)
                   | Inr fs2 \<Rightarrow>
                       (case merge_inputs E fs2 output_sqlite input_paths of
                          (fs3, Inl e) \<Rightarrow> (fs3, Inl e)
                        | (fs3, Inr counts) \<Rightarrow>
                            (case query_table fs3 output_sqlite of
                               Inl e \<Rightarrow> (fs3, Inl e)
                             | Inr tbl \<Rightarrow>
                                 (let total_input_rows = sum_list (map snd counts);
                                      merged_rows = int (length tbl)
                                  in (fs3, Inr \<lparr>per_file_counts = counts,
                                                 total_input_rows = total_input_rows,
                                                 merged_rows = merged_rows,
                                                 duplicate_rows_removed =
                                                   total_input_rows - merged_rows\<rparr>)))))))"

section \<open>Duplicate extraction (extract_duplicate_rows_to_sqlite.py)\<close>

text \<open>
  \<open>PARTITION BY\<close> puts two rows in one partition when each partition column compares
  equal, NULL being equal to NULL, an integer equal to the REAL of the same value, text
  and blobs compared byte by byte, and values of different classes otherwise unequal.
  \<open>group_value\<close> is a normal form for that comparison.
\<close>

definition group_value :: "'f engine \<Rightarrow> 'f sqlval \<Rightarrow> 'f sqlval" where
  "group_value E v =
     (case v of
        SReal x \<Rightarrow> (case real_exact E x of Some i \<Rightarrow> SInt i | None \<Rightarrow> SReal x)
      | _ \<Rightarrow> v)"

definition partition_cols :: "'f engine \<Rightarrow> (column \<Rightarrow> 'f sqlval) \<Rightarrow> 'f sqlval list" where
  "partition_cols E vals = map (\<lambda>column. group_value E (vals column)) NON_ID_COLUMNS_extract"

text \<open>
  \<open>ROW_NUMBER() OVER (PARTITION BY ... ORDER BY id)\<close> over rows given in the order of
  their ids: a row's number is one more than the number of rows of its partition
  before it (\<open>seen\<close> holds the rows already numbered).
\<close>

fun row_numbers :: "'f engine \<Rightarrow> 'f row list \<Rightarrow> 'f row list \<Rightarrow> ('f row \<times> nat) list" where
  "row_numbers E seen [] = []"
| "row_numbers E seen (r # rs) =
     (r, Suc (length (filter (\<lambda>s. partition_cols E (cols s) = partition_cols E (cols r)) seen)))
       # row_numbers E (seen @ [r]) rs"

text \<open>\<open>COUNT(*) OVER (PARTITION BY ...)\<close>: the size of the row's partition.\<close>

definition grp_count :: "'f engine \<Rightarrow> 'f table \<Rightarrow> 'f row \<Rightarrow> nat" where
  "grp_count E src r =
     length (filter (\<lambda>s. partition_cols E (cols s) = partition_cols E (cols r)) src)"

text \<open>The \<open>SELECT\<close> of the extraction: \<open>WHERE grp_count > 1 AND rn <= 2 ORDER BY id\<close>.\<close>

definition ranked :: "'f engine \<Rightarrow> 'f table \<Rightarrow> ('f row \<times> nat \<times> nat) list" where
  "ranked E src =
     map (\<lambda>(r, rn). (r, rn, grp_count E src r)) (row_numbers E [] (sort_key row_id src))"

definition duplicate_rows :: "'f engine \<Rightarrow> 'f table \<Rightarrow> 'f row list" where
  "duplicate_rows E src =
     sort_key row_id (map fst (filter (\<lambda>(r, rn, gc). gc > 1 \<and> rn \<le> 2) (ranked E src)))"

text \<open>
  \<open>INSERT INTO outdb.credible_set_table (id, ...)\<close>: every row keeps its id and has its
  values converted by the column affinities; an id already in the table violates the
  primary key and fails the statement.
\<close>

fun insert_rows :: "'f engine \<Rightarrow> 'f table \<Rightarrow> 'f row list \<Rightarrow> error + 'f table" where
  "insert_rows E tbl [] = Inr tbl"
| "insert_rows E tbl (r # rs) =
     (if row_id r \<in> set (map row_id tbl) then Inl IntegrityError
      else insert_rows E (tbl @ [\<lparr>row_id = row_id r, cols = stored E (cols r)\<rparr>]) rs)"

text \<open>
  \<open>extract_duplicates_for_file\<close>, from the rows of the source's \<open>credible_set_table\<close>
  to the rows of the table of the output database (a new file: one already at the output
  path is removed first) and the row count returned.
\<close>

definition extract_duplicates_for_file :: "'f engine \<Rightarrow> 'f table \<Rightarrow> error + ('f table \<times> int)" where
  "extract_duplicates_for_file E src =
     (case insert_rows E [] (duplicate_rows E src) of
        Inl e \<Rightarrow> Inl e
      | Inr outdb \<Rightarrow> Inr (outdb, int (length outdb)))"

section \<open>Notions used in the statements\<close>

text \<open>
  The first element of each key in a list, in the order of the list (\<open>seen\<close> holds the
  keys already met).
\<close>

fun keep_first :: "('a \<Rightarrow> 'k) \<Rightarrow> 'k list \<Rightarrow> 'a list \<Rightarrow> 'a list" where
  "keep_first k seen [] = []"
| "keep_first k seen (x # xs) =
     (if k x \<in> set seen then keep_first k seen xs else x # keep_first k (seen @ [k x]) xs)"

text \<open>
  The rows of \<open>credible_set_table\<close> at a path (none when there is no such table), and the
  order in which a merge meets the rows of its sources: source after source, each by
  ascending id.
\<close>

definition table_at :: "'f filesystem \<Rightarrow> string \<Rightarrow> 'f table" where
  "table_at fs p = (case query_table fs p of Inr t \<Rightarrow> t | Inl e \<Rightarrow> [])"

definition encounter_order :: "'f filesystem \<Rightarrow> string list \<Rightarrow> 'f row list" where
  "encounter_order fs ps = concat (map (\<lambda>p. sort_key row_id (table_at fs p)) ps)"

section \<open>Example data\<close>

text \<open>
  An engine for evaluating the model on examples: its REAL values are the ones with an
  integer value, written with one decimal, and it reads no text as a number (the examples
  hold no text in a numeric column).
\<close>

definition example_engine :: "int engine" where
  "example_engine =
     \<lparr>real_text = (\<lambda>x. dec_text x @ ''.0''), int_real = (\<lambda>i. i),
      real_exact = (\<lambda>x. Some x), text_num = (\<lambda>s. None)\<rparr>"

definition example_env :: env where
  "example_env = \<lparr>cwd = ''/work'', realpath = (\<lambda>p. p)\<rparr>"

text \<open>A row whose attributes are all NULL except \<open>variant\<close> and \<open>rsid\<close>.\<close>

definition example_row :: "int \<Rightarrow> string \<Rightarrow> int sqlval \<Rightarrow> int row" where
  "example_row i v r = \<lparr>row_id = i, cols = (\<lambda>c. SNull)(variant := SText v, rsid := r)\<rparr>"

text \<open>
  Two sources holding the same identity key under different values: in \<open>/A\<close> the row of
  id 3 has a NULL \<open>rsid\<close> and the row of id 7 the text \<open>__NULL__\<close>; in \<open>/B\<close> the row of id 1
  has the blob of those bytes and the row of id 2 a NULL.
\<close>

definition example_fs :: "int filesystem" where
  "example_fs =
     [''/A'' \<mapsto> Database (Some [example_row 7 ''chr1_100_A_G'' (SText ''__NULL__''),
                                example_row 3 ''chr1_100_A_G'' SNull]),
      ''/B'' \<mapsto> Database (Some [example_row 1 ''chr1_100_A_G'' (SBlob ''__NULL__''),
                                example_row 2 ''chr1_100_A_G'' SNull]),
      ''/out'' \<mapsto> Database (Some [])]"

text \<open>
  Three sources of five rows each, named by their \<open>variant\<close>; across the sources three
  rows repeat an identity met in an earlier source (\<open>a\<close>, \<open>b\<close> and \<open>f\<close>).
\<close>

definition example_table :: "string list \<Rightarrow> int table" where
  "example_table vs = map (\<lambda>(i, v). example_row (int i) v SNull) (enumerate 1 vs)"

definition example_run_fs :: "int filesystem" where
  "example_run_fs =
     [''/work/list.txt'' \<mapsto> TextFile (''/data/s1.sqlite'' @ [CHR 0x0A] @ ''/data/s2.sqlite''
                              @ [CHR 0x0A] @ ''/data/s3.sqlite'' @ [CHR 0x0A]),
      ''/data/s1.sqlite'' \<mapsto> Database (Some (example_table [''a'', ''b'', ''c'', ''d'', ''e''])),
      ''/data/s2.sqlite'' \<mapsto> Database (Some (example_table [''a'', ''f'', ''g'', ''h'', ''i''])),
      ''/data/s3.sqlite'' \<mapsto> Database (Some (example_table [''b'', ''f'', ''j'', ''k'', ''l'']))]"

definition example_args :: args where
  "example_args = \<lparr>arg_input_list = ''list.txt'', arg_output_sqlite = ''/data/merged.sqlite''\<rparr>"

text \<open>A list file naming its source by a path relative to the working directory.\<close>

definition example_relative_fs :: "int filesystem" where
  "example_relative_fs =
     [''/work/list.txt'' \<mapsto> TextFile (''data/s1.sqlite'' @ [CHR 0x0A]),
      ''/work/data/s1.sqlite'' \<mapsto> Database (Some (example_table [''a'', ''b'']))]"

text \<open>
  A source, not stored in the order of its ids, with a partition of four rows (\<open>a\<close>, ids
  1, 3, 5, 7), a partition of two (\<open>b\<close>, ids 2, 6) and a single row (\<open>c\<close>, id 4).
\<close>

definition example_source :: "int table" where
  "example_source =
     [example_row 7 ''a'' SNull, example_row 2 ''b'' SNull, example_row 5 ''a'' SNull,
      example_row 4 ''c'' SNull, example_row 1 ''a'' SNull, example_row 6 ''b'' SNull,
      example_row 3 ''a'' SNull]"

text \<open>
  The two tests of "same record" on the attribute values of two source rows: the merge
  takes the second for a duplicate when the index keys of the two rows, as stored in the
  output table, conflict in the unique index; the extraction groups them when their
  partition columns compare equal.
\<close>

definition merge_duplicates ::
  "'f engine \<Rightarrow> (column \<Rightarrow> 'f sqlval) \<Rightarrow> (column \<Rightarrow> 'f sqlval) \<Rightarrow> bool" where
  "merge_duplicates E a b = uq_conflict (dedup_expr E (stored E a)) (dedup_expr E (stored E b))"

definition same_partition ::
  "'f engine \<Rightarrow> (column \<Rightarrow> 'f sqlval) \<Rightarrow> (column \<Rightarrow> 'f sqlval) \<Rightarrow> bool" where
  "same_partition E a b = (partition_cols E a = partition_cols E b)"

text \<open>
  A value held exactly by the index key: NULL, a text other than the sentinel in a \<open>TEXT\<close>
  column, an integer in an \<open>INTEGER\<close> column.
\<close>

fun value_of_type :: "affinity \<Rightarrow> 'f sqlval \<Rightarrow> bool" where
  "value_of_type t SNull = True"
| "value_of_type TEXT (SText s) = (s \<noteq> ''__NULL__'')"
| "value_of_type INTEGER (SInt i) = True"
| "value_of_type t v = False"

definition declared_types :: "(column \<Rightarrow> 'f sqlval) \<Rightarrow> bool" where
  "declared_types a = list_all (\<lambda>c. value_of_type (column_affinity c) (a c)) NON_ID_COLUMNS"

section \<open>Reading the input list\<close>

lemma read_lines_skip_blank:
  "read_lines ev fs paths (filter (\<lambda>l. strip l \<noteq> []) ls) = read_lines ev fs paths ls"
  by (induction ls arbitrary: paths) (simp_all add: Let_def)

lemma read_lines_result:
  "read_lines ev fs paths ls = Inr out \<Longrightarrow>
   out = paths @ map (\<lambda>l. resolve ev (strip l)) (filter (\<lambda>l. strip l \<noteq> []) ls)"
proof (induction ls arbitrary: paths)
  case Nil
  then show ?case by simp
next
  case (Cons l ls)
  show ?case
  proof (cases "strip l = []")
    case True
    with Cons show ?thesis by simp
  next
    case False
    with Cons.prems have "read_lines ev fs (paths @ [resolve ev (strip l)]) ls = Inr out"
      by (simp add: Let_def split: if_splits)
    from Cons.IH [OF this] False show ?thesis by simp
  qed
qed

lemma read_lines_all_blank:
  "\<forall>l \<in> set ls. strip l = [] \<Longrightarrow> read_lines ev fs paths ls = Inr paths"
  by (induction ls) simp_all

lemma read_sqlite_paths_extract_eq:
  "read_sqlite_paths_extract ev fs list_file = read_sqlite_paths ev fs list_file"
  by (simp add: read_sqlite_paths_extract_def read_sqlite_paths_def)

text \<open>
  C10. Blank lines of the input list are skipped without an error, in both scripts: the
  outcome is the one for the list with its blank lines removed; a successful reading
  returns, in order, the resolved path of each non-blank line (stripped of surrounding
  white space); and a list file holding only blank lines fails with the error of an
  empty one.
\<close>

theorem blank_lines_skipped:
  assumes "fs list_file = Some (TextFile content)"
  shows "read_lines ev fs [] (filter (\<lambda>l. strip l \<noteq> []) (text_lines [] content))
           = read_lines ev fs [] (text_lines [] content)
       \<and> (\<forall>paths. read_sqlite_paths ev fs list_file = Inr paths \<longrightarrow>
            paths = map (\<lambda>l. resolve ev (strip l))
                      (filter (\<lambda>l. strip l \<noteq> []) (text_lines [] content)))
       \<and> ((\<forall>l \<in> set (text_lines [] content). strip l = []) \<longrightarrow>
            read_sqlite_paths ev fs list_file = Inl (NoSqlitePaths list_file))
       \<and> read_sqlite_paths_extract ev fs list_file = read_sqlite_paths ev fs list_file"
proof (intro conjI allI impI)
  show "read_lines ev fs [] (filter (\<lambda>l. strip l \<noteq> []) (text_lines [] content))
          = read_lines ev fs [] (text_lines [] content)"
    by (rule read_lines_skip_blank)
next
  fix paths
  assume "read_sqlite_paths ev fs list_file = Inr paths"
  with assms have "read_lines ev fs [] (text_lines [] content) = Inr paths"
    by (simp add: read_sqlite_paths_def split: sum.splits if_splits)
  from read_lines_result [OF this]
  show "paths = map (\<lambda>l. resolve ev (strip l))
                  (filter (\<lambda>l. strip l \<noteq> []) (text_lines [] content))"
    by simp
next
  assume "\<forall>l \<in> set (text_lines [] content). strip l = []"
  then have "read_lines ev fs [] (text_lines [] content) = Inr []"
    by (rule read_lines_all_blank)
  with assms show "read_sqlite_paths ev fs list_file = Inl (NoSqlitePaths list_file)"
    by (simp add: read_sqlite_paths_def)
next
  show "read_sqlite_paths_extract ev fs list_file = read_sqlite_paths ev fs list_file"
    by (rule read_sqlite_paths_extract_eq)
qed

theorem blank_lines_skipped_witness:
  "(let fs = [''/in.txt'' \<mapsto> TextFile (''  '' @ [CHR 0x0A] @ ''/d/a.sqlite'' @ [CHR 0x0D, CHR 0x0A]
                                  @ [CHR 0x09, CHR 0x0A] @ '' /d/b.sqlite ''),
              ''/d/a.sqlite'' \<mapsto> Database (Some ([] :: int table)),
              ''/d/b.sqlite'' \<mapsto> Database (Some [])];
        ev = \<lparr>cwd = ''/w'', realpath = (\<lambda>p. p)\<rparr>
    in fs ''/in.txt'' = Some (TextFile (''  '' @ [CHR 0x0A] @ ''/d/a.sqlite'' @ [CHR 0x0D, CHR 0x0A]
                                  @ [CHR 0x09, CHR 0x0A] @ '' /d/b.sqlite ''))
     \<and> read_sqlite_paths ev fs ''/in.txt'' = Inr [''/d/a.sqlite'', ''/d/b.sqlite'']
     \<and> read_sqlite_paths_extract ev fs ''/in.txt'' = Inr [''/d/a.sqlite'', ''/d/b.sqlite''])"
  using blank_lines_skipped [of
      "[''/in.txt'' \<mapsto> TextFile (''  '' @ [CHR 0x0A] @ ''/d/a.sqlite'' @ [CHR 0x0D, CHR 0x0A]
                                  @ [CHR 0x09, CHR 0x0A] @ '' /d/b.sqlite ''),
              ''/d/a.sqlite'' \<mapsto> Database (Some ([] :: int table)),
              ''/d/b.sqlite'' \<mapsto> Database (Some [])]"
      "''/in.txt''"
      "''  '' @ [CHR 0x0A] @ ''/d/a.sqlite'' @ [CHR 0x0D, CHR 0x0A]
                                  @ [CHR 0x09, CHR 0x0A] @ '' /d/b.sqlite ''"
      "\<lparr>cwd = ''/w'', realpath = (\<lambda>p. p)\<rparr>"]
  by (simp add: read_sqlite_paths_def read_sqlite_paths_extract_def strip_def is_space_def
        resolve_def is_absolute_def exists_path_def Let_def)

section \<open>The unique index and first-writer-wins\<close>

lemma ifnull_cast_not_null: "ifnull (cast_text E v) (SText s) \<noteq> SNull"
  by (cases v) simp_all

lemma dedup_expr_no_null: "SNull \<notin> set (dedup_expr E vals)"
proof
  assume "SNull \<in> set (dedup_expr E vals)"
  then obtain c where "SNull = ifnull (cast_text E (vals c)) (SText ''__NULL__'')"
    by (auto simp: dedup_expr_def)
  then show False using ifnull_cast_not_null [of E "vals c" "''__NULL__''"] by simp
qed

lemma uq_conflict_iff:
  "uq_conflict (dedup_expr E a) (dedup_expr E b) \<longleftrightarrow> dedup_expr E a = dedup_expr E b"
  by (simp add: uq_conflict_def dedup_expr_no_null)

lemma insert_or_ignore_cases:
  "insert_or_ignore E tbl vals =
     (if dedup_expr E (stored E vals) \<in> set (map (\<lambda>r. dedup_expr E (cols r)) tbl) then tbl
      else tbl @ [\<lparr>row_id = new_rowid tbl, cols = stored E vals\<rparr>])"
  by (simp add: insert_or_ignore_def Let_def uq_conflict_iff image_iff eq_commute)

lemma cols_foldl_insert:
  "map cols (foldl (insert_or_ignore E) tbl vs) =
     map cols tbl @ keep_first (dedup_expr E) (map (\<lambda>r. dedup_expr E (cols r)) tbl) (map (stored E) vs)"
  by (induction vs arbitrary: tbl) (simp_all add: insert_or_ignore_cases)

lemma prefix_foldl_insert: "prefix tbl (foldl (insert_or_ignore E) tbl vs)"
proof (induction vs arbitrary: tbl)
  case Nil
  show ?case by simp
next
  case (Cons v vs)
  have "prefix tbl (insert_or_ignore E tbl v)"
    by (simp add: insert_or_ignore_cases)
  with Cons [of "insert_or_ignore E tbl v"] show ?case
    by (auto intro: prefix_order.trans)
qed

lemma new_rowid_consecutive:
  "map row_id tbl = [1..int (length tbl)] \<Longrightarrow> new_rowid tbl = int (length tbl) + 1"
proof (cases "tbl = []")
  case True
  then show ?thesis by (simp add: new_rowid_def)
next
  case False
  assume ids: "map row_id tbl = [1..int (length tbl)]"
  from False have pos: "1 \<le> int (length tbl)" by (cases tbl) simp_all
  have "set (map row_id tbl) = {1..int (length tbl)}" by (simp only: ids set_upto)
  moreover have "Max {1..int (length tbl)} = int (length tbl)"
    using pos by (intro Max_eqI) auto
  ultimately show ?thesis using False by (simp add: new_rowid_def)
qed

lemma ids_insert:
  assumes "map row_id tbl = [1..int (length tbl)]"
  shows "map row_id (insert_or_ignore E tbl v) = [1..int (length (insert_or_ignore E tbl v))]"
  using assms by (simp add: insert_or_ignore_cases new_rowid_consecutive upto_rec2)

lemma ids_foldl_insert:
  "map row_id tbl = [1..int (length tbl)] \<Longrightarrow>
   map row_id (foldl (insert_or_ignore E) tbl vs) = [1..int (length (foldl (insert_or_ignore E) tbl vs))]"
  by (induction vs arbitrary: tbl) (simp_all add: ids_insert)

lemma filter_keep_first:
  "filter (\<lambda>x. k x = K) (keep_first k seen xs) =
     (if K \<in> set seen then [] else case find (\<lambda>x. k x = K) xs of None \<Rightarrow> [] | Some x \<Rightarrow> [x])"
  by (induction xs arbitrary: seen) auto

lemma foldl_insert_new_rows:
  "foldl (insert_new_rows E) tbl srcs =
     foldl (insert_or_ignore E) tbl (map cols (concat (map (sort_key row_id) srcs)))"
  by (induction srcs arbitrary: tbl) (simp_all add: insert_new_rows_def)

lemma query_table_update_other:
  "p \<noteq> out \<Longrightarrow> query_table (fs(out \<mapsto> x)) p = query_table fs p"
  by (simp add: query_table_def)

lemma query_table_update_same:
  "query_table (fs(out \<mapsto> Database (Some t))) out = Inr t"
  by (simp add: query_table_def)

lemma table_at_update_other:
  "p \<noteq> out \<Longrightarrow> table_at (fs(out \<mapsto> x)) p = table_at fs p"
  by (simp add: table_at_def query_table_update_other)

lemma merge_inputs_success:
  assumes "merge_inputs E fs out ps = (fs', Inr counts)"
    and "query_table fs out = Inr tbl"
    and "out \<notin> set ps"
  shows "fs' = fs(out \<mapsto> Database (Some (foldl (insert_new_rows E) tbl (map (table_at fs) ps))))
       \<and> counts = map (\<lambda>p. (p, int (length (table_at fs p)))) ps
       \<and> (\<forall>p \<in> set ps. query_table fs p = Inr (table_at fs p))"
  using assms
proof (induction ps arbitrary: fs tbl counts)
  case Nil
  then show ?case
    by (auto simp: query_table_def fun_eq_iff split: option.splits entry.splits)
next
  case (Cons p ps)
  from Cons.prems(3) have ne: "p \<noteq> out" and notin: "out \<notin> set ps" by auto
  from Cons.prems(1) obtain src where src: "query_table fs p = Inr src"
    by (auto split: sum.splits)
  let ?fs1 = "fs(out \<mapsto> Database (Some (insert_new_rows E tbl src)))"
  from Cons.prems(1,2) src obtain cs where
    rec: "merge_inputs E ?fs1 out ps = (fs', Inr cs)" and cs: "counts = (p, int (length src)) # cs"
    by (auto split: sum.splits prod.splits)
  have q1: "query_table ?fs1 out = Inr (insert_new_rows E tbl src)"
    by (rule query_table_update_same)
  note IH0 = Cons.IH [OF rec q1 notin]
  have same: "\<And>q. q \<in> set ps \<Longrightarrow> table_at ?fs1 q = table_at fs q"
    using notin by (auto intro: table_at_update_other)
  have sameq: "\<And>q. q \<in> set ps \<Longrightarrow> query_table ?fs1 q = query_table fs q"
    using notin by (auto intro: query_table_update_other)
  have tabs: "map (table_at ?fs1) ps = map (table_at fs) ps"
    by (rule map_cong [OF refl same])
  have tp: "table_at fs p = src" using src by (simp add: table_at_def)
  from IH0 have IH1: "fs' = ?fs1(out \<mapsto> Database (Some (foldl (insert_new_rows E)
        (insert_new_rows E tbl src) (map (table_at ?fs1) ps))))" by (rule conjunct1)
  from IH0 have IH2: "cs = map (\<lambda>p. (p, int (length (table_at ?fs1 p)))) ps"
    by (rule conjunct1 [OF conjunct2])
  from IH0 have IH3: "\<forall>q \<in> set ps. query_table ?fs1 q = Inr (table_at ?fs1 q)"
    by (rule conjunct2 [OF conjunct2])
  show ?case
  proof (intro conjI ballI)
    show "fs' = fs(out \<mapsto> Database (Some (foldl (insert_new_rows E) tbl (map (table_at fs) (p # ps)))))"
      unfolding IH1 tabs by (simp only: fun_upd_upd list.map foldl.simps tp)
    have "map (\<lambda>p. (p, int (length (table_at ?fs1 p)))) ps
            = map (\<lambda>p. (p, int (length (table_at fs p)))) ps"
      by (rule map_cong [OF refl]) (simp only: same)
    then show "counts = map (\<lambda>p. (p, int (length (table_at fs p)))) (p # ps)"
      unfolding cs IH2 by (simp only: list.map tp)
    fix q assume qin: "q \<in> set (p # ps)"
    show "query_table fs q = Inr (table_at fs q)"
    proof (cases "q = p")
      case True
      then show ?thesis using src tp by simp
    next
      case False
      with qin have "q \<in> set ps" by simp
      with IH3 same sameq show ?thesis by metis
    qed
  qed
qed





lemma find_map_comp: "find P (map f xs) = map_option f (find (\<lambda>x. P (f x)) xs)"
  by (induction xs) simp_all

lemma merge_rows_by_key:
  "map cols (filter (\<lambda>q. dedup_expr E (cols q) = K) (foldl (insert_new_rows E) [] srcs)) =
     (case find (\<lambda>r. dedup_expr E (stored E (cols r)) = K) (concat (map (sort_key row_id) srcs)) of
        None \<Rightarrow> [] | Some r \<Rightarrow> [stored E (cols r)])"
proof -
  let ?enc = "concat (map (sort_key row_id) srcs)"
  let ?T = "foldl (insert_new_rows E) [] srcs"
  have "map cols (filter (\<lambda>q. dedup_expr E (cols q) = K) ?T)
          = filter (\<lambda>v. dedup_expr E v = K) (map cols ?T)"
    by (simp add: filter_map comp_def)
  also have "map cols ?T = keep_first (dedup_expr E) [] (map (stored E) (map cols ?enc))"
    by (simp add: foldl_insert_new_rows cols_foldl_insert)
  also have "filter (\<lambda>v. dedup_expr E v = K) \<dots> =
      (case find (\<lambda>v. dedup_expr E v = K) (map (\<lambda>r. stored E (cols r)) ?enc) of
         None \<Rightarrow> [] | Some v \<Rightarrow> [v])"
    by (simp add: filter_keep_first comp_def)
  also have "\<dots> = (case find (\<lambda>r. dedup_expr E (stored E (cols r)) = K) ?enc of
        None \<Rightarrow> [] | Some r \<Rightarrow> [stored E (cols r)])"
    by (simp add: find_map_comp split: option.splits)
  finally show ?thesis .
qed


lemmas example_simps = example_fs_def query_table_def insert_new_rows_def insert_or_ignore_def
      uq_conflict_def dedup_expr_def NON_ID_COLUMNS_def stored_def example_row_def
      example_engine_def new_rowid_def Let_def table_at_def


lemma prefix_insert_new_rows: "prefix tbl (insert_new_rows E tbl src)"
  by (simp add: insert_new_rows_def prefix_foldl_insert)

lemma prefix_foldl_insert_new_rows: "prefix tbl (foldl (insert_new_rows E) tbl srcs)"
proof (induction srcs arbitrary: tbl)
  case Nil
  show ?case by simp
next
  case (Cons src srcs)
  have "prefix tbl (insert_new_rows E tbl src)" by (rule prefix_insert_new_rows)
  also have "prefix (insert_new_rows E tbl src) (foldl (insert_new_rows E) (insert_new_rows E tbl src) srcs)"
    by (rule Cons.IH)
  finally show ?case by simp
qed

lemma ids_merge:
  "map row_id (foldl (insert_new_rows E) [] srcs)
     = [1..int (length (foldl (insert_new_rows E) [] srcs))]"
  unfolding foldl_insert_new_rows by (rule ids_foldl_insert) simp

lemma strict_upto: "sorted_wrt (<) [i..j]"
  by (simp add: strict_sorted_iff)

text \<open>
  C6. Ids in acceptance order. After a successful \<open>merge_inputs\<close> into an empty output table
  that is not one of the sources, the rows of the output are, in order, the first row of each
  identity key in the order the rows were met (source order, then ascending id), and their
  ids are 1, 2, ..., so strictly increasing along that order and never repeated; and the
  output of a merge of a longer list of sources begins with exactly these rows, under the
  same ids.
\<close>

theorem monotonic_id_reassignment:
  assumes run: "merge_inputs E fs out ps = (fs', Inr counts)"
    and empty: "fs out = Some (Database (Some []))"
    and notin: "out \<notin> set ps"
  shows "map cols (table_at fs' out)
           = keep_first (dedup_expr E) [] (map (\<lambda>r. stored E (cols r)) (encounter_order fs ps))
     \<and> map row_id (table_at fs' out) = [1..int (length (table_at fs' out))]
     \<and> sorted_wrt (<) (map row_id (table_at fs' out))
     \<and> distinct (map row_id (table_at fs' out))
     \<and> (\<forall>qs fs'' counts'. merge_inputs E fs out (ps @ qs) = (fs'', Inr counts') \<and> out \<notin> set qs
            \<longrightarrow> prefix (table_at fs' out) (table_at fs'' out))"
proof -
  let ?T = "foldl (insert_new_rows E) [] (map (table_at fs) ps)"
  have q: "query_table fs out = Inr []" using empty by (simp add: query_table_def)
  from merge_inputs_success [OF run q notin]
  have "fs' = fs(out \<mapsto> Database (Some ?T))" by (rule conjunct1)
  then have T: "table_at fs' out = ?T" by (simp add: table_at_def query_table_def)
  have ids: "map row_id ?T = [1..int (length ?T)]" by (rule ids_merge)
  have c: "map cols ?T
      = keep_first (dedup_expr E) [] (map (\<lambda>r. stored E (cols r)) (encounter_order fs ps))"
    by (simp add: foldl_insert_new_rows cols_foldl_insert encounter_order_def comp_def)
  have s: "sorted_wrt (<) (map row_id ?T)" unfolding ids by (rule strict_upto)
  have d: "distinct (map row_id ?T)" unfolding ids by simp
  have ext: "prefix (table_at fs' out) (table_at fs'' out)"
    if run2: "merge_inputs E fs out (ps @ qs) = (fs'', Inr counts')" and n2: "out \<notin> set qs"
    for qs fs'' counts'
  proof -
    from notin n2 have n: "out \<notin> set (ps @ qs)" by simp
    from merge_inputs_success [OF run2 q n]
    have "fs'' = fs(out \<mapsto> Database (Some (foldl (insert_new_rows E) [] (map (table_at fs) (ps @ qs)))))"
      by (rule conjunct1)
    then have "table_at fs'' out = foldl (insert_new_rows E) ?T (map (table_at fs) qs)"
      by (simp add: table_at_def query_table_def)
    then show ?thesis unfolding T by (simp add: prefix_foldl_insert_new_rows)
  qed
  from c ids s d ext show ?thesis unfolding T by blast
qed

section \<open>NULL in the identity key\<close>

lemma apply_affinity_null: "apply_affinity E a SNull = SNull"
  by (cases a) simp_all

lemma stored_null: "vals c = SNull \<Longrightarrow> stored E vals c = SNull"
  by (simp add: stored_def apply_affinity_null)

lemma insert_or_ignore_twice:
  "dedup_expr E (stored E v2) = dedup_expr E (stored E v1) \<Longrightarrow>
   insert_or_ignore E (insert_or_ignore E tbl v1) v2 = insert_or_ignore E tbl v1"
  by (simp add: insert_or_ignore_cases)

lemma merge_one_row_per_key:
  assumes "r \<in> set (concat (map (sort_key row_id) srcs))"
  shows "length (filter (\<lambda>q. dedup_expr E (cols q) = dedup_expr E (stored E (cols r)))
           (foldl (insert_new_rows E) [] srcs)) = 1"
proof -
  let ?K = "dedup_expr E (stored E (cols r))"
  from assms have "find (\<lambda>x. dedup_expr E (stored E (cols x)) = ?K)
      (concat (map (sort_key row_id) srcs)) \<noteq> None"
    by (simp only: find_None_iff) blast
  then obtain x where "find (\<lambda>x. dedup_expr E (stored E (cols x)) = ?K)
      (concat (map (sort_key row_id) srcs)) = Some x" by blast
  with merge_rows_by_key [of E ?K srcs]
  have "map cols (filter (\<lambda>q. dedup_expr E (cols q) = ?K) (foldl (insert_new_rows E) [] srcs))
      = [stored E (cols x)]" by simp
  then have "length (map cols (filter (\<lambda>q. dedup_expr E (cols q) = ?K)
      (foldl (insert_new_rows E) [] srcs))) = 1" by simp
  then show ?thesis by simp
qed

text \<open>
  C3. NULL equals NULL in the identity key. For two source rows with the same seventeen
  attribute values, one of them NULL in both: the index expression of the NULL attribute is
  the sentinel text \<open>__NULL__\<close>, the index keys of the two rows conflict in the unique index,
  inserting the second after the first changes nothing, and a successful merge of sources
  holding the two rows has exactly one row of their key.
\<close>

theorem null_equality_in_identity_key:
  assumes same: "cols r1 = cols r2"
    and null: "cols r1 c = SNull"
    and run: "merge_inputs E fs out ps = (fs', Inr counts)"
    and empty: "fs out = Some (Database (Some []))"
    and notin: "out \<notin> set ps"
    and in1: "p1 \<in> set ps" "r1 \<in> set (table_at fs p1)"
    and in2: "p2 \<in> set ps" "r2 \<in> set (table_at fs p2)"
  shows "ifnull (cast_text E (stored E (cols r1) c)) (SText ''__NULL__'') = SText ''__NULL__''
     \<and> ifnull (cast_text E (stored E (cols r2) c)) (SText ''__NULL__'') = SText ''__NULL__''
     \<and> uq_conflict (dedup_expr E (stored E (cols r1))) (dedup_expr E (stored E (cols r2)))
     \<and> insert_or_ignore E (insert_or_ignore E tbl (cols r1)) (cols r2)
         = insert_or_ignore E tbl (cols r1)
     \<and> length (filter (\<lambda>q. uq_conflict (dedup_expr E (cols q)) (dedup_expr E (stored E (cols r1))))
                 (table_at fs' out)) = 1
     \<and> length (filter (\<lambda>q. uq_conflict (dedup_expr E (cols q)) (dedup_expr E (stored E (cols r2))))
                 (table_at fs' out)) = 1"
proof -
  let ?T = "foldl (insert_new_rows E) [] (map (table_at fs) ps)"
  have n1: "stored E (cols r1) c = SNull" using null by (rule stored_null)
  have n2: "stored E (cols r2) c = SNull" using null same by (simp add: stored_null)
  have k: "dedup_expr E (stored E (cols r2)) = dedup_expr E (stored E (cols r1))"
    using same by simp
  have q: "query_table fs out = Inr []" using empty by (simp add: query_table_def)
  from merge_inputs_success [OF run q notin]
  have "fs' = fs(out \<mapsto> Database (Some ?T))" by (rule conjunct1)
  then have T: "table_at fs' out = ?T" by (simp add: table_at_def query_table_def)
  from in1 have "r1 \<in> set (concat (map (sort_key row_id) (map (table_at fs) ps)))" by auto
  from merge_one_row_per_key [OF this, of E]
  have one: "length (filter (\<lambda>q. dedup_expr E (cols q) = dedup_expr E (stored E (cols r1))) ?T) = 1" .
  show ?thesis
    using n1 n2 k one by (simp add: uq_conflict_iff insert_or_ignore_twice T)
qed

theorem null_equality_in_identity_key_witness:
  "cols (example_row 3 ''chr1_100_A_G'' SNull) = cols (example_row 2 ''chr1_100_A_G'' SNull)
   \<and> cols (example_row 3 ''chr1_100_A_G'' SNull) rsid = SNull
   \<and> snd (merge_inputs example_engine example_fs ''/out'' [''/A'', ''/B''])
        = Inr [(''/A'', 2), (''/B'', 2)]
   \<and> example_fs ''/out'' = Some (Database (Some []))
   \<and> ''/out'' \<notin> set [''/A'', ''/B'']
   \<and> ''/A'' \<in> set [''/A'', ''/B''] \<and> ''/B'' \<in> set [''/A'', ''/B'']
   \<and> example_row 3 ''chr1_100_A_G'' SNull \<in> set (table_at example_fs ''/A'')
   \<and> example_row 2 ''chr1_100_A_G'' SNull \<in> set (table_at example_fs ''/B'')
   \<and> uq_conflict
        (dedup_expr example_engine (stored example_engine (cols (example_row 3 ''chr1_100_A_G'' SNull))))
        (dedup_expr example_engine (stored example_engine (cols (example_row 2 ''chr1_100_A_G'' SNull))))
   \<and> length (table_at (fst (merge_inputs example_engine example_fs ''/out'' [''/A'', ''/B''])) ''/out'') = 1"
proof -
  let ?AB = "merge_inputs example_engine example_fs ''/out'' [''/A'', ''/B'']"
  let ?r1 = "example_row 3 ''chr1_100_A_G'' SNull"
  let ?r2 = "example_row 2 ''chr1_100_A_G'' SNull"
  have same: "cols ?r1 = cols ?r2" by (simp add: example_row_def)
  have null: "cols ?r1 rsid = SNull" by (simp add: example_row_def)
  have s1: "snd ?AB = Inr [(''/A'', 2), (''/B'', 2)]" by (simp add: example_simps)
  have run: "?AB = (fst ?AB, Inr [(''/A'', 2), (''/B'', 2)])"
    using s1 by (simp add: prod_eq_iff)
  have e: "example_fs ''/out'' = Some (Database (Some []))" by (simp add: example_fs_def)
  have n: "''/out'' \<notin> set [''/A'', ''/B'']" by simp
  have p1: "''/A'' \<in> set [''/A'', ''/B'']" and p2: "''/B'' \<in> set [''/A'', ''/B'']" by simp_all
  have i1: "?r1 \<in> set (table_at example_fs ''/A'')"
    by (simp add: example_fs_def table_at_def query_table_def)
  have i2: "?r2 \<in> set (table_at example_fs ''/B'')"
    by (simp add: example_fs_def table_at_def query_table_def)
  have "uq_conflict (dedup_expr example_engine (stored example_engine (cols ?r1)))
          (dedup_expr example_engine (stored example_engine (cols ?r2)))"
    using null_equality_in_identity_key [OF same null run e n p1 i1 p2 i2] by blast
  moreover have "length (table_at (fst ?AB) ''/out'') = 1" by (simp add: example_simps)
  ultimately show ?thesis using same null s1 e i1 i2 by simp
qed

section \<open>The run of the merge script\<close>

lemma unlink_then_create:
  assumes "(if exists_path fs p then unlink fs p else Inr fs) = Inr fs1"
  shows "create_output_table fs1 p = Inr (fs(p \<mapsto> Database (Some [])))"
proof (cases "exists_path fs p")
  case True
  with assms have "fs1 = fs(p := None)"
    by (auto simp: unlink_def split: option.splits entry.splits)
  then show ?thesis by (simp add: create_output_table_def)
next
  case False
  with assms have "fs1 = fs" "fs p = None" by (simp_all add: exists_path_def)
  then show ?thesis by (simp add: create_output_table_def)
qed

lemma create_output_table_existing:
  "fs p = Some (Database (Some t)) \<Longrightarrow> create_output_table fs p = Inl OperationalError"
  by (simp add: create_output_table_def)

lemma main_success:
  assumes "main E ev fs a = (fs', Inr rep)"
  shows "\<exists>paths counts tbl.
      read_sqlite_paths ev fs (resolve ev (arg_input_list a)) = Inr paths
    \<and> merge_inputs E (fs(resolve ev (arg_output_sqlite a) \<mapsto> Database (Some [])))
         (resolve ev (arg_output_sqlite a)) paths = (fs', Inr counts)
    \<and> query_table fs' (resolve ev (arg_output_sqlite a)) = Inr tbl
    \<and> rep = \<lparr>per_file_counts = counts, total_input_rows = sum_list (map snd counts),
              merged_rows = int (length tbl),
              duplicate_rows_removed = sum_list (map snd counts) - int (length tbl)\<rparr>"
proof -
  let ?out = "resolve ev (arg_output_sqlite a)"
  from assms obtain paths where paths: "read_sqlite_paths ev fs (resolve ev (arg_input_list a)) = Inr paths"
    by (auto simp: main_def Let_def split: sum.splits)
  from assms paths obtain fs1 where
    fs1: "(if exists_path fs ?out then unlink fs ?out else Inr fs) = Inr fs1"
    by (auto simp: main_def Let_def split: sum.splits)
  note cr = unlink_then_create [OF fs1]
  from assms paths fs1 cr obtain counts where
    m: "merge_inputs E (fs(?out \<mapsto> Database (Some []))) ?out paths = (fs', Inr counts)"
    by (auto simp: main_def Let_def split: sum.splits prod.splits)
  from assms paths fs1 cr m obtain tbl where
    t: "query_table fs' ?out = Inr tbl"
    and rep: "rep = \<lparr>per_file_counts = counts, total_input_rows = sum_list (map snd counts),
              merged_rows = int (length tbl),
              duplicate_rows_removed = sum_list (map snd counts) - int (length tbl)\<rparr>"
    by (auto simp: main_def Let_def split: sum.splits prod.splits)
  from paths m t rep show ?thesis by blast
qed

text \<open>
  C5. The figures of a successful run: "duplicate rows removed" is the sum of the
  per-source row counts minus the row count of the merged table; the total is that sum; the
  merged count is the number of rows of the output table; and when the output is not one of
  the listed sources, the count of each source is the number of rows of its table.
\<close>

theorem duplicate_rows_removed_accounting:
  assumes "main E ev fs a = (fs', Inr rep)"
  shows "duplicate_rows_removed rep = sum_list (map snd (per_file_counts rep)) - merged_rows rep
     \<and> total_input_rows rep = sum_list (map snd (per_file_counts rep))
     \<and> merged_rows rep = int (length (table_at fs' (resolve ev (arg_output_sqlite a))))
     \<and> (\<forall>paths. read_sqlite_paths ev fs (resolve ev (arg_input_list a)) = Inr paths
            \<and> resolve ev (arg_output_sqlite a) \<notin> set paths
          \<longrightarrow> per_file_counts rep = map (\<lambda>p. (p, int (length (table_at fs p)))) paths)"
proof -
  let ?out = "resolve ev (arg_output_sqlite a)"
  let ?fs0 = "fs(?out \<mapsto> Database (Some []))"
  from main_success [OF assms] obtain paths counts tbl where
    paths: "read_sqlite_paths ev fs (resolve ev (arg_input_list a)) = Inr paths"
    and m: "merge_inputs E ?fs0 ?out paths = (fs', Inr counts)"
    and t: "query_table fs' ?out = Inr tbl"
    and rep: "rep = \<lparr>per_file_counts = counts, total_input_rows = sum_list (map snd counts),
              merged_rows = int (length tbl),
              duplicate_rows_removed = sum_list (map snd counts) - int (length tbl)\<rparr>"
    by blast
  have a1: "duplicate_rows_removed rep = sum_list (map snd (per_file_counts rep)) - merged_rows rep"
    by (simp add: rep)
  have a2: "total_input_rows rep = sum_list (map snd (per_file_counts rep))"
    by (simp add: rep)
  have a3: "merged_rows rep = int (length (table_at fs' ?out))"
    using t by (simp add: rep table_at_def)
  have a4: "per_file_counts rep = map (\<lambda>p. (p, int (length (table_at fs p)))) ps"
    if ps: "read_sqlite_paths ev fs (resolve ev (arg_input_list a)) = Inr ps" and n: "?out \<notin> set ps"
    for ps
  proof -
    from ps paths have eq: "ps = paths" by simp
    have q: "query_table ?fs0 ?out = Inr []" by (rule query_table_update_same)
    from merge_inputs_success [OF m q] n eq
    have "counts = map (\<lambda>p. (p, int (length (table_at ?fs0 p)))) ps" by simp
    also have "\<dots> = map (\<lambda>p. (p, int (length (table_at fs p)))) ps"
    proof (rule map_cong [OF refl])
      fix p assume "p \<in> set ps"
      with n have "p \<noteq> ?out" by auto
      then show "(p, int (length (table_at ?fs0 p))) = (p, int (length (table_at fs p)))"
        by (simp add: table_at_update_other)
    qed
    finally show ?thesis by (simp add: rep)
  qed
  from a1 a2 a3 a4 show ?thesis by blast
qed


lemmas example_run_simps = example_run_fs_def example_args_def example_env_def example_table_def
  main_def read_sqlite_paths_def strip_def is_space_def resolve_def is_absolute_def
  exists_path_def unlink_def create_output_table_def enumerate_eq_zip

lemma example_run:
  "snd (main example_engine example_env example_run_fs example_args)
     = Inr \<lparr>per_file_counts = [(''/data/s1.sqlite'', 5), (''/data/s2.sqlite'', 5), (''/data/s3.sqlite'', 5)],
             total_input_rows = 15, merged_rows = 12, duplicate_rows_removed = 3\<rparr>"
  by (simp add: example_run_simps example_simps)


theorem duplicate_rows_removed_accounting_witness:
  "snd (main example_engine example_env example_run_fs example_args)
     = Inr \<lparr>per_file_counts = [(''/data/s1.sqlite'', 5), (''/data/s2.sqlite'', 5), (''/data/s3.sqlite'', 5)],
             total_input_rows = 15, merged_rows = 12, duplicate_rows_removed = 3\<rparr>
   \<and> (3::int) = sum_list (map snd [(''/data/s1.sqlite'', 5::int), (''/data/s2.sqlite'', 5), (''/data/s3.sqlite'', 5)]) - 12"
proof -
  let ?run = "main example_engine example_env example_run_fs example_args"
  let ?rep = "\<lparr>per_file_counts = [(''/data/s1.sqlite'', 5), (''/data/s2.sqlite'', 5), (''/data/s3.sqlite'', 5)],
             total_input_rows = 15, merged_rows = 12, duplicate_rows_removed = 3\<rparr>"
  have run: "?run = (fst ?run, Inr ?rep)"
    using example_run by (simp add: prod_eq_iff)
  have "duplicate_rows_removed ?rep = sum_list (map snd (per_file_counts ?rep)) - merged_rows ?rep"
    using duplicate_rows_removed_accounting [OF run] by (rule conjunct1)
  then show ?thesis using example_run by simp
qed

theorem monotonic_id_reassignment_witness:
  "snd (merge_inputs example_engine (example_run_fs(''/data/merged.sqlite'' \<mapsto> Database (Some [])))
          ''/data/merged.sqlite'' [''/data/s1.sqlite'', ''/data/s2.sqlite'', ''/data/s3.sqlite''])
      = Inr [(''/data/s1.sqlite'', 5), (''/data/s2.sqlite'', 5), (''/data/s3.sqlite'', 5)]
   \<and> (example_run_fs(''/data/merged.sqlite'' \<mapsto> Database (Some []))) ''/data/merged.sqlite''
      = Some (Database (Some []))
   \<and> ''/data/merged.sqlite'' \<notin> set [''/data/s1.sqlite'', ''/data/s2.sqlite'', ''/data/s3.sqlite'']
   \<and> map (\<lambda>q. (row_id q, cols q variant))
        (table_at (fst (merge_inputs example_engine
           (example_run_fs(''/data/merged.sqlite'' \<mapsto> Database (Some [])))
           ''/data/merged.sqlite'' [''/data/s1.sqlite'', ''/data/s2.sqlite'', ''/data/s3.sqlite'']))
         ''/data/merged.sqlite'')
      = [(1, SText ''a''), (2, SText ''b''), (3, SText ''c''), (4, SText ''d''), (5, SText ''e''),
         (6, SText ''f''), (7, SText ''g''), (8, SText ''h''), (9, SText ''i''),
         (10, SText ''j''), (11, SText ''k''), (12, SText ''l'')]
   \<and> sorted_wrt (<) (map row_id
        (table_at (fst (merge_inputs example_engine
           (example_run_fs(''/data/merged.sqlite'' \<mapsto> Database (Some [])))
           ''/data/merged.sqlite'' [''/data/s1.sqlite'', ''/data/s2.sqlite'', ''/data/s3.sqlite'']))
         ''/data/merged.sqlite''))"
proof -
  let ?fs = "example_run_fs(''/data/merged.sqlite'' \<mapsto> Database (Some []))"
  let ?ps = "[''/data/s1.sqlite'', ''/data/s2.sqlite'', ''/data/s3.sqlite'']"
  let ?run = "merge_inputs example_engine ?fs ''/data/merged.sqlite'' ?ps"
  have rows: "map (\<lambda>q. (row_id q, cols q variant)) (table_at (fst ?run) ''/data/merged.sqlite'')
      = [(1, SText ''a''), (2, SText ''b''), (3, SText ''c''), (4, SText ''d''), (5, SText ''e''),
         (6, SText ''f''), (7, SText ''g''), (8, SText ''h''), (9, SText ''i''),
         (10, SText ''j''), (11, SText ''k''), (12, SText ''l'')]"
    and s: "snd ?run = Inr [(''/data/s1.sqlite'', 5), (''/data/s2.sqlite'', 5), (''/data/s3.sqlite'', 5)]"
    by (simp_all add: example_run_simps example_simps)
  have r: "?run = (fst ?run, Inr [(''/data/s1.sqlite'', 5), (''/data/s2.sqlite'', 5), (''/data/s3.sqlite'', 5)])"
    using s by (simp add: prod_eq_iff)
  have e: "?fs ''/data/merged.sqlite'' = Some (Database (Some []))" by simp
  have n: "''/data/merged.sqlite'' \<notin> set ?ps" by simp
  have "sorted_wrt (<) (map row_id (table_at (fst ?run) ''/data/merged.sqlite''))"
    using monotonic_id_reassignment [OF r e n] by blast
  with rows s e n show ?thesis by blast
qed

section \<open>Running the merge again\<close>

lemma merge_inputs_touches_out:
  "merge_inputs E fs out ps = (fs', res) \<Longrightarrow> fs' = fs(out := fs' out)"
proof (induction ps arbitrary: fs res)
  case Nil
  then show ?case by auto
next
  case (Cons p ps)
  show ?case
  proof (cases "query_table fs p")
    case (Inl e)
    with Cons.prems show ?thesis by auto
  next
    case (Inr src)
    note src = this
    show ?thesis
    proof (cases "query_table fs out")
      case (Inl e)
      with Cons.prems src show ?thesis by auto
    next
      case (Inr tbl)
      let ?fs1 = "fs(out \<mapsto> Database (Some (insert_new_rows E tbl src)))"
      obtain fs2 res2 where rec: "merge_inputs E ?fs1 out ps = (fs2, res2)"
        by (cases "merge_inputs E ?fs1 out ps") blast
      with Cons.prems src Inr have "fs' = fs2" by (auto split: sum.splits)
      with rec have rec': "merge_inputs E ?fs1 out ps = (fs', res2)" by simp
      from Cons.IH [OF rec'] have "fs' = ?fs1(out := fs' out)" .
      then show ?thesis by (metis fun_upd_upd)
    qed
  qed
qed

lemma merge_inputs_keeps_table:
  "merge_inputs E fs out ps = (fs', res) \<Longrightarrow> query_table fs out = Inr tbl \<Longrightarrow>
   \<exists>t. fs' out = Some (Database (Some t))"
proof (induction ps arbitrary: fs res tbl)
  case Nil
  then show ?case
    by (auto simp: query_table_def split: option.splits entry.splits)
next
  case (Cons p ps)
  show ?case
  proof (cases "query_table fs p")
    case (Inl e)
    with Cons.prems show ?thesis
      by (auto simp: query_table_def split: option.splits entry.splits)
  next
    case (Inr src)
    let ?fs1 = "fs(out \<mapsto> Database (Some (insert_new_rows E tbl src)))"
    obtain fs2 res2 where rec: "merge_inputs E ?fs1 out ps = (fs2, res2)"
      by (cases "merge_inputs E ?fs1 out ps") blast
    with Cons.prems Inr have "fs' = fs2" by (auto split: sum.splits)
    with rec have rec': "merge_inputs E ?fs1 out ps = (fs', res2)" by simp
    have "query_table ?fs1 out = Inr (insert_new_rows E tbl src)"
      by (rule query_table_update_same)
    from Cons.IH [OF rec' this] show ?thesis .
  qed
qed

lemma read_lines_other_fs:
  assumes "read_lines ev fs acc ls = Inr paths"
    and "\<forall>p. p \<noteq> out \<longrightarrow> fs2 p = fs p"
    and "out \<notin> set paths"
  shows "read_lines ev fs2 acc ls = Inr paths"
  using assms(1)
proof (induction ls arbitrary: acc)
  case Nil
  then show ?case by simp
next
  case (Cons l ls)
  show ?case
  proof (cases "strip l = []")
    case True
    with Cons show ?thesis by simp
  next
    case False
    let ?path = "resolve ev (strip l)"
    from Cons.prems False have abs: "is_absolute ?path" and ex: "exists_path fs ?path"
      and rec: "read_lines ev fs (acc @ [?path]) ls = Inr paths"
      by (simp_all add: Let_def split: if_splits)
    from read_lines_result [OF rec] have "?path \<in> set paths" by simp
    with assms(3) have "?path \<noteq> out" by auto
    with assms(2) ex have "exists_path fs2 ?path" by (simp add: exists_path_def)
    with abs False Cons.IH [OF rec] show ?thesis by (simp add: Let_def)
  qed
qed

lemma read_sqlite_paths_other_fs:
  assumes "read_sqlite_paths ev fs il = Inr paths"
    and "\<forall>p. p \<noteq> out \<longrightarrow> fs2 p = fs p"
    and "out \<notin> set paths" and "out \<noteq> il"
  shows "read_sqlite_paths ev fs2 il = Inr paths"
proof -
  from assms(1) obtain content where c: "fs il = Some (TextFile content)"
    by (auto simp: read_sqlite_paths_def split: option.splits entry.splits)
  with assms(1) have r: "read_lines ev fs [] (text_lines [] content) = Inr paths" and ne: "paths \<noteq> []"
    by (auto simp: read_sqlite_paths_def split: sum.splits if_splits)
  from assms(2,4) c have c2: "fs2 il = Some (TextFile content)" by simp
  from read_lines_other_fs [OF r assms(2,3)] c2 ne show ?thesis
    by (simp add: read_sqlite_paths_def)
qed

text \<open>
  C7. Running the merge twice. When the output path is neither the list file nor one of the
  listed sources, running \<open>main\<close> again on the file system the first run left gives the
  same file system, hence the same output table, and the same figures or the same error.
  This rests on the removal: a successful first run leaves its table at the output path,
  over which \<open>create_output_table\<close> would fail; the second run unlinks it, and the table
  is then created anew.
\<close>

theorem idempotent_replace:
  assumes ne: "resolve ev (arg_output_sqlite a) \<noteq> resolve ev (arg_input_list a)"
    and notin: "\<forall>paths. read_sqlite_paths ev fs (resolve ev (arg_input_list a)) = Inr paths
                  \<longrightarrow> resolve ev (arg_output_sqlite a) \<notin> set paths"
  shows "main E ev (fst (main E ev fs a)) a = main E ev fs a
     \<and> (\<forall>rep. snd (main E ev fs a) = Inr rep \<longrightarrow>
           exists_path (fst (main E ev fs a)) (resolve ev (arg_output_sqlite a))
         \<and> create_output_table (fst (main E ev fs a)) (resolve ev (arg_output_sqlite a))
             = Inl OperationalError
         \<and> unlink (fst (main E ev fs a)) (resolve ev (arg_output_sqlite a))
             = Inr ((fst (main E ev fs a))(resolve ev (arg_output_sqlite a) := None))
         \<and> create_output_table
               ((fst (main E ev fs a))(resolve ev (arg_output_sqlite a) := None))
               (resolve ev (arg_output_sqlite a))
             = Inr ((fst (main E ev fs a))(resolve ev (arg_output_sqlite a) \<mapsto> Database (Some []))))"
proof -
  let ?out = "resolve ev (arg_output_sqlite a)"
  let ?il = "resolve ev (arg_input_list a)"
  let ?fs0 = "fs(?out \<mapsto> Database (Some []))"
  have rerun: "main E ev (fst (main E ev fs a)) a = main E ev fs a"
  proof (cases "read_sqlite_paths ev fs ?il")
    case (Inl e)
    then show ?thesis by (simp add: main_def Let_def)
  next
    case (Inr paths)
    note paths = this
    with notin have n: "?out \<notin> set paths" by blast
    show ?thesis
    proof (cases "if exists_path fs ?out then unlink fs ?out else Inr fs")
      case (Inl e)
      with paths show ?thesis by (simp add: main_def Let_def)
    next
      case (Inr fs1)
      note cr = unlink_then_create [OF Inr]
      obtain fs3 res where m: "merge_inputs E ?fs0 ?out paths = (fs3, res)"
        by (cases "merge_inputs E ?fs0 ?out paths") blast
      from paths Inr cr m have fst3: "fst (main E ev fs a) = fs3"
        by (simp add: main_def Let_def split: sum.splits)
      have q0: "query_table ?fs0 ?out = Inr []" by (rule query_table_update_same)
      from merge_inputs_keeps_table [OF m q0] obtain t where t: "fs3 ?out = Some (Database (Some t))"
        by blast
      from merge_inputs_touches_out [OF m] have fs3: "fs3 = fs(?out := fs3 ?out)"
        by (metis fun_upd_upd)
      then have other: "\<forall>p. p \<noteq> ?out \<longrightarrow> fs3 p = fs p" by (metis fun_upd_other)
      from read_sqlite_paths_other_fs [OF paths other n ne]
      have paths3: "read_sqlite_paths ev fs3 ?il = Inr paths" .
      have un3: "(if exists_path fs3 ?out then unlink fs3 ?out else Inr fs3) = Inr (fs3(?out := None))"
        using t by (simp add: exists_path_def unlink_def)
      have upd3: "fs3(?out \<mapsto> Database (Some [])) = ?fs0"
        using fs3 by (metis fun_upd_upd)
      have cr3: "create_output_table (fs3(?out := None)) ?out = Inr ?fs0"
        using unlink_then_create [OF un3] by (simp only: upd3)
      have "main E ev fs3 a = main E ev fs a"
        unfolding main_def Let_def paths paths3 Inr un3 by (simp only: sum.case cr cr3)
      with fst3 show ?thesis by simp
    qed
  qed
  have removal: "exists_path (fst (main E ev fs a)) ?out
         \<and> create_output_table (fst (main E ev fs a)) ?out = Inl OperationalError
         \<and> unlink (fst (main E ev fs a)) ?out = Inr ((fst (main E ev fs a))(?out := None))
         \<and> create_output_table ((fst (main E ev fs a))(?out := None)) ?out
             = Inr ((fst (main E ev fs a))(?out \<mapsto> Database (Some [])))"
    if ok: "snd (main E ev fs a) = Inr rep" for rep
  proof -
    let ?fs' = "fst (main E ev fs a)"
    from ok have "main E ev fs a = (?fs', Inr rep)" by (simp add: prod_eq_iff)
    from main_success [OF this] obtain tbl where "query_table ?fs' ?out = Inr tbl" by blast
    then have t: "?fs' ?out = Some (Database (Some tbl))"
      by (auto simp: query_table_def split: option.splits entry.splits)
    then show ?thesis
      by (simp add: exists_path_def unlink_def create_output_table_def)
  qed
  from rerun removal show ?thesis by blast
qed


lemma example_paths:
  "read_sqlite_paths example_env example_run_fs ''/work/list.txt''
     = Inr [''/data/s1.sqlite'', ''/data/s2.sqlite'', ''/data/s3.sqlite'']"
  by (simp add: example_run_simps)

theorem idempotent_replace_witness:
  "resolve example_env (arg_output_sqlite example_args) \<noteq> resolve example_env (arg_input_list example_args)
   \<and> read_sqlite_paths example_env example_run_fs (resolve example_env (arg_input_list example_args))
       = Inr [''/data/s1.sqlite'', ''/data/s2.sqlite'', ''/data/s3.sqlite'']
   \<and> resolve example_env (arg_output_sqlite example_args)
       \<notin> set [''/data/s1.sqlite'', ''/data/s2.sqlite'', ''/data/s3.sqlite'']
   \<and> snd (main example_engine example_env
            (fst (main example_engine example_env example_run_fs example_args)) example_args)
       = Inr \<lparr>per_file_counts = [(''/data/s1.sqlite'', 5), (''/data/s2.sqlite'', 5), (''/data/s3.sqlite'', 5)],
               total_input_rows = 15, merged_rows = 12, duplicate_rows_removed = 3\<rparr>
   \<and> create_output_table (fst (main example_engine example_env example_run_fs example_args))
         ''/data/merged.sqlite'' = Inl OperationalError"
proof -
  let ?out = "resolve example_env (arg_output_sqlite example_args)"
  let ?il = "resolve example_env (arg_input_list example_args)"
  have il: "?il = ''/work/list.txt''" and out: "?out = ''/data/merged.sqlite''"
    by (simp_all add: example_args_def example_env_def resolve_def is_absolute_def)
  have ne: "?out \<noteq> ?il" unfolding il out by simp
  have paths: "read_sqlite_paths example_env example_run_fs ?il
       = Inr [''/data/s1.sqlite'', ''/data/s2.sqlite'', ''/data/s3.sqlite'']"
    unfolding il by (rule example_paths)
  have n: "?out \<notin> set [''/data/s1.sqlite'', ''/data/s2.sqlite'', ''/data/s3.sqlite'']"
    unfolding out by simp
  have notin: "\<forall>ps. read_sqlite_paths example_env example_run_fs ?il = Inr ps \<longrightarrow> ?out \<notin> set ps"
    using paths n by simp
  note twice = idempotent_replace [OF ne notin, of example_engine]
  from twice have "main example_engine example_env
            (fst (main example_engine example_env example_run_fs example_args)) example_args
        = main example_engine example_env example_run_fs example_args"
    by (rule conjunct1)
  moreover from twice example_run
  have "create_output_table (fst (main example_engine example_env example_run_fs example_args))
          ?out = Inl OperationalError"
    by blast
  ultimately show ?thesis using example_run ne paths n out by simp
qed

section \<open>Validation of the input list\<close>

lemma read_lines_never_relative:
  assumes "\<forall>p. is_absolute (realpath ev p)"
  shows "read_lines ev fs acc ls \<noteq> Inl (ExpectedAbsolutePath l)"
proof (induction ls arbitrary: acc)
  case Nil
  show ?case by simp
next
  case (Cons x xs)
  have "is_absolute (resolve ev (strip x))" using assms by (simp add: resolve_def)
  with Cons show ?case by (simp add: Let_def)
qed

lemma main_fails_before_output:
  "read_sqlite_paths ev fs (resolve ev (arg_input_list a)) = Inl e \<Longrightarrow>
   main E ev fs a = (fs, Inl e)"
  by (simp add: main_def Let_def)

lemma read_sqlite_paths_failures:
  "fs il = None \<Longrightarrow> read_sqlite_paths ev fs il = Inl (ListFileDoesNotExist il)"
  "fs il = Some (TextFile content) \<Longrightarrow> \<forall>l \<in> set (text_lines [] content). strip l = [] \<Longrightarrow>
     read_sqlite_paths ev fs il = Inl (NoSqlitePaths il)"
  by (simp_all add: read_sqlite_paths_def read_lines_all_blank)

text \<open>
  C8. The check for an absolute path comes after \<open>resolve\<close>, which has already made the
  path absolute: a list file naming an existing source by a relative path is accepted, and
  the run succeeds instead of failing.
\<close>

theorem relative_path_accepted:
  "\<not> is_absolute ''data/s1.sqlite''
   \<and> example_relative_fs ''/work/list.txt'' = Some (TextFile (''data/s1.sqlite'' @ [CHR 0x0A]))
   \<and> read_sqlite_paths example_env example_relative_fs
        (resolve example_env (arg_input_list example_args)) = Inr [''/work/data/s1.sqlite'']
   \<and> snd (main example_engine example_env example_relative_fs example_args)
       = Inr \<lparr>per_file_counts = [(''/work/data/s1.sqlite'', 2)],
               total_input_rows = 2, merged_rows = 2, duplicate_rows_removed = 0\<rparr>"
  by (simp add: example_relative_fs_def example_run_simps example_simps)

section \<open>Ranking within partitions\<close>

lemma fst_row_numbers: "map fst (row_numbers E seen ys) = ys"
  by (induction ys arbitrary: seen) simp_all

lemma row_numbers_key:
  "filter (\<lambda>r. partition_cols E (cols r) = K)
     (map fst (filter (\<lambda>(r, rn). rn \<le> 2) (row_numbers E seen ys)))
   = take (2 - length (filter (\<lambda>s. partition_cols E (cols s) = K) seen))
       (filter (\<lambda>r. partition_cols E (cols r) = K) ys)"
proof (induction ys arbitrary: seen)
  case Nil
  show ?case by simp
next
  case (Cons y ys)
  let ?n = "length (filter (\<lambda>s. partition_cols E (cols s) = K) seen)"
  show ?case
  proof (cases "partition_cols E (cols y) = K")
    case True
    then have cnt: "length (filter (\<lambda>s. partition_cols E (cols s) = partition_cols E (cols y)) seen) = ?n"
      by simp
    show ?thesis
    proof (cases "?n < 2")
      case True
      with \<open>partition_cols E (cols y) = K\<close> cnt Cons [of "seen @ [y]"] show ?thesis
        by (simp add: take_Cons' Suc_diff_le)
    next
      case False
      with \<open>partition_cols E (cols y) = K\<close> cnt Cons [of "seen @ [y]"] show ?thesis
        by simp
    qed
  next
    case False
    with Cons [of "seen @ [y]"] show ?thesis by simp
  qed
qed

lemma filter_ranked_aux:
  fixes xs :: "('f row \<times> nat) list"
  shows "map fst (filter (\<lambda>(r, rn, gc). gc > 1 \<and> rn \<le> 2)
            (map (\<lambda>(r, rn). (r, rn, grp_count E src r)) xs))
       = filter (\<lambda>r. grp_count E src r > 1) (map fst (filter (\<lambda>(r, rn). rn \<le> 2) xs))"
  by (induction xs) auto

lemma filter_ranked:
  "map fst (filter (\<lambda>(r, rn, gc). gc > 1 \<and> rn \<le> 2) (ranked E src))
   = filter (\<lambda>r. grp_count E src r > 1)
       (map fst (filter (\<lambda>(r, rn). rn \<le> 2) (row_numbers E [] (sort_key row_id src))))"
  by (simp only: ranked_def filter_ranked_aux)


lemma grp_count_key:
  "grp_count E src r = length (filter (\<lambda>s. partition_cols E (cols s) = partition_cols E (cols r)) src)"
  by (simp add: grp_count_def)

lemma selected_by_key:
  "filter (\<lambda>r. partition_cols E (cols r) = K)
     (map fst (filter (\<lambda>(r, rn, gc). gc > 1 \<and> rn \<le> 2) (ranked E src)))
   = (if 1 < length (filter (\<lambda>s. partition_cols E (cols s) = K) src)
      then take 2 (filter (\<lambda>r. partition_cols E (cols r) = K) (sort_key row_id src))
      else [])"
proof -
  let ?M = "map fst (filter (\<lambda>(r, rn). rn \<le> 2) (row_numbers E [] (sort_key row_id src)))"
  let ?n = "length (filter (\<lambda>s. partition_cols E (cols s) = K) src)"
  have "filter (\<lambda>r. partition_cols E (cols r) = K) (filter (\<lambda>r. grp_count E src r > 1) ?M)
      = filter (\<lambda>r. grp_count E src r > 1 \<and> partition_cols E (cols r) = K) ?M"
    by (simp only: filter_filter)
  also have "\<dots> = filter (\<lambda>r. 1 < ?n \<and> partition_cols E (cols r) = K) ?M"
    by (rule filter_cong [OF refl]) (auto simp: grp_count_key)
  also have "\<dots> = (if 1 < ?n then filter (\<lambda>r. partition_cols E (cols r) = K) ?M else [])"
    by simp
  also have "filter (\<lambda>r. partition_cols E (cols r) = K) ?M
      = take 2 (filter (\<lambda>r. partition_cols E (cols r) = K) (sort_key row_id src))"
    using row_numbers_key [of E K "[]" "sort_key row_id src"] by simp
  finally show ?thesis by (simp only: filter_ranked)
qed

lemma selected_sorted:
  "sorted (map row_id (map fst (filter (\<lambda>(r, rn, gc). gc > 1 \<and> rn \<le> 2) (ranked E src))))"
proof -
  let ?zs = "row_numbers E [] (sort_key row_id src)"
  have "sorted (map (\<lambda>z. row_id (fst z)) ?zs)"
    using sorted_sort_key [of row_id src] fst_row_numbers [of E "[]" "sort_key row_id src"]
    by (metis (no_types, lifting) map_map comp_def map_eq_conv)
  then have "sorted (map (\<lambda>z. row_id (fst z)) (filter (\<lambda>(r, rn). rn \<le> 2) ?zs))"
    by (rule sorted_filter)
  then have "sorted (map row_id (map fst (filter (\<lambda>(r, rn). rn \<le> 2) ?zs)))"
    by (simp add: comp_def)
  then have "sorted (map row_id (filter (\<lambda>r. grp_count E src r > 1)
      (map fst (filter (\<lambda>(r, rn). rn \<le> 2) ?zs))))"
    by (rule sorted_filter)
  then show ?thesis by (simp only: filter_ranked)
qed

lemma selected_subset:
  "set (map fst (filter (\<lambda>(r, rn, gc). gc > 1 \<and> rn \<le> 2) (ranked E src))) \<subseteq> set src"
proof -
  have "set (map fst (filter (\<lambda>(r, rn). rn \<le> 2) (row_numbers E [] (sort_key row_id src))))
      \<subseteq> set (map fst (row_numbers E [] (sort_key row_id src)))" by auto
  then show ?thesis by (simp only: filter_ranked fst_row_numbers) auto
qed

lemma duplicate_rows_selected:
  "duplicate_rows E src = map fst (filter (\<lambda>(r, rn, gc). gc > 1 \<and> rn \<le> 2) (ranked E src))"
  unfolding duplicate_rows_def by (rule sort_key_id_if_sorted [OF selected_sorted])

lemma insert_rows_result:
  "insert_rows E tbl rs = Inr out \<Longrightarrow>
   out = tbl @ map (\<lambda>r. \<lparr>row_id = row_id r, cols = stored E (cols r)\<rparr>) rs"
proof (induction rs arbitrary: tbl)
  case Nil
  then show ?case by simp
next
  case (Cons r rs)
  from Cons.prems have "insert_rows E (tbl @ [\<lparr>row_id = row_id r, cols = stored E (cols r)\<rparr>]) rs = Inr out"
    by (simp split: if_splits)
  from Cons.IH [OF this] show ?case by simp
qed

lemma insert_rows_distinct:
  "distinct (map row_id tbl @ map row_id rs) \<Longrightarrow>
   insert_rows E tbl rs = Inr (tbl @ map (\<lambda>r. \<lparr>row_id = row_id r, cols = stored E (cols r)\<rparr>) rs)"
  by (induction rs arbitrary: tbl) auto

lemma length_by_key:
  assumes "finite A" "k ` set xs \<subseteq> A"
  shows "length xs = (\<Sum>K\<in>A. length (filter (\<lambda>x. k x = K) xs))"
  using assms(2)
proof (induction xs)
  case Nil
  show ?case by simp
next
  case (Cons x xs)
  then have IH: "length xs = (\<Sum>K\<in>A. length (filter (\<lambda>x. k x = K) xs))" and xA: "k x \<in> A"
    by simp_all
  have "(\<Sum>K\<in>A. length (filter (\<lambda>y. k y = K) (x # xs)))
      = (\<Sum>K\<in>A. (if k x = K then 1 else 0) + length (filter (\<lambda>y. k y = K) xs))"
    by (rule sum.cong) simp_all
  also have "\<dots> = (\<Sum>K\<in>A. if k x = K then 1 else 0) + (\<Sum>K\<in>A. length (filter (\<lambda>y. k y = K) xs))"
    by (rule sum.distrib)
  also have "(\<Sum>K\<in>A. if k x = K then 1 else 0) = (1::nat)"
    using assms(1) xA by simp
  finally show ?case using IH by simp
qed

section \<open>The extraction cap\<close>

lemma map_insort_key: "map f (insort_key f x xs) = insort (f x) (map f xs)"
  by (induction xs) simp_all

lemma map_sort_key: "map f (sort_key f xs) = sort (map f xs)"
  by (induction xs) (simp_all add: map_insort_key)

lemma selected_distinct:
  assumes "distinct (map row_id src)"
  shows "distinct (map row_id (duplicate_rows E src))"
proof -
  let ?zs = "row_numbers E [] (sort_key row_id src)"
  have "distinct (map row_id (sort_key row_id src))"
    using assms by (simp add: map_sort_key)
  then have "distinct (map (\<lambda>z. row_id (fst z)) ?zs)"
    using fst_row_numbers [of E "[]" "sort_key row_id src"]
    by (metis (no_types, lifting) map_map comp_def map_eq_conv)
  then have "distinct (map (\<lambda>z. row_id (fst z)) (filter (\<lambda>(r, rn). rn \<le> 2) ?zs))"
    by (rule distinct_map_filter)
  then have "distinct (map row_id (map fst (filter (\<lambda>(r, rn). rn \<le> 2) ?zs)))"
    by (simp add: comp_def)
  then have "distinct (map row_id (filter (\<lambda>r. grp_count E src r > 1)
      (map fst (filter (\<lambda>(r, rn). rn \<le> 2) ?zs))))"
    by (rule distinct_map_filter)
  then show ?thesis by (simp only: duplicate_rows_selected filter_ranked)
qed

lemma extract_result:
  assumes "distinct (map row_id src)"
  shows "extract_duplicates_for_file E src =
     Inr (map (\<lambda>r. \<lparr>row_id = row_id r, cols = stored E (cols r)\<rparr>) (duplicate_rows E src),
          int (length (duplicate_rows E src)))"
proof -
  have "distinct (map row_id [] @ map row_id (duplicate_rows E src))"
    using selected_distinct [OF assms] by simp
  from insert_rows_distinct [OF this] show ?thesis
    by (simp add: extract_duplicates_for_file_def)
qed

lemma duplicate_rows_by_key:
  "filter (\<lambda>r. partition_cols E (cols r) = K) (duplicate_rows E src)
   = (if 2 \<le> length (filter (\<lambda>s. partition_cols E (cols s) = K) src)
      then take 2 (sort_key row_id (filter (\<lambda>s. partition_cols E (cols s) = K) src))
      else [])"
  unfolding duplicate_rows_selected selected_by_key filter_sort
  by (cases "2 \<le> length (filter (\<lambda>s. partition_cols E (cols s) = K) src)") auto

text \<open>
  C4. The extraction cap. For a source whose ids are distinct, \<open>extract_duplicates_for_file\<close>
  succeeds; its output is ordered by id; every output row is a source row under its
  original id (with the values as stored); and for every source row, with \<open>G\<close> the rows of
  the source in its partition: when \<open>G\<close> has at least two rows, the output rows whose
  ids are ids of \<open>G\<close> are exactly two, the two of least id in \<open>G\<close>, and when \<open>G\<close> is
  that row alone, none.
\<close>

theorem extraction_cap:
  assumes dist: "distinct (map row_id src)"
  shows "extract_duplicates_for_file E src =
           Inr (map (\<lambda>r. \<lparr>row_id = row_id r, cols = stored E (cols r)\<rparr>) (duplicate_rows E src),
                int (length (duplicate_rows E src)))
     \<and> sorted_wrt (<) (map row_id (duplicate_rows E src))
     \<and> set (duplicate_rows E src) \<subseteq> set src
     \<and> (\<forall>r\<in>set src.
          map row_id (filter (\<lambda>q. row_id q \<in> row_id `
                  set (filter (\<lambda>s. partition_cols E (cols s) = partition_cols E (cols r)) src))
               (map (\<lambda>r. \<lparr>row_id = row_id r, cols = stored E (cols r)\<rparr>) (duplicate_rows E src)))
          = (if 2 \<le> length (filter (\<lambda>s. partition_cols E (cols s) = partition_cols E (cols r)) src)
             then take 2 (sort (map row_id
                    (filter (\<lambda>s. partition_cols E (cols s) = partition_cols E (cols r)) src)))
             else [])
        \<and> length (filter (\<lambda>q. row_id q \<in> row_id `
                  set (filter (\<lambda>s. partition_cols E (cols s) = partition_cols E (cols r)) src))
               (map (\<lambda>r. \<lparr>row_id = row_id r, cols = stored E (cols r)\<rparr>) (duplicate_rows E src)))
          = (if 2 \<le> length (filter (\<lambda>s. partition_cols E (cols s) = partition_cols E (cols r)) src)
             then 2 else 0))"
proof -
  let ?sel = "duplicate_rows E src"
  let ?st = "\<lambda>r. \<lparr>row_id = row_id r, cols = stored E (cols r)\<rparr>"
  have sub: "set ?sel \<subseteq> set src"
    by (simp only: duplicate_rows_selected selected_subset)
  have srt: "sorted (map row_id ?sel)"
    by (simp only: duplicate_rows_selected selected_sorted)
  have dsel: "distinct (map row_id ?sel)" by (rule selected_distinct [OF dist])
  have strict: "sorted_wrt (<) (map row_id ?sel)"
    using srt dsel by (simp add: strict_sorted_iff)
  have inj: "inj_on row_id (set src)" using dist by (simp add: distinct_map)
  have grp: "map row_id (filter (\<lambda>q. row_id q \<in> row_id `
                  set (filter (\<lambda>s. partition_cols E (cols s) = partition_cols E (cols r)) src))
               (map ?st ?sel))
          = (if 2 \<le> length (filter (\<lambda>s. partition_cols E (cols s) = partition_cols E (cols r)) src)
             then take 2 (sort (map row_id
                    (filter (\<lambda>s. partition_cols E (cols s) = partition_cols E (cols r)) src)))
             else [])" (is "?lhs = ?rhs")
    if r: "r \<in> set src" for r
  proof -
    let ?K = "partition_cols E (cols r)"
    let ?G = "filter (\<lambda>s. partition_cols E (cols s) = ?K) src"
    have mem: "row_id x \<in> row_id ` set ?G \<longleftrightarrow> partition_cols E (cols x) = ?K"
      if x: "x \<in> set ?sel" for x
    proof
      assume "row_id x \<in> row_id ` set ?G"
      then obtain g where g: "g \<in> set ?G" "row_id x = row_id g" by blast
      with x sub inj have "x = g" by (auto dest: inj_onD)
      with g show "partition_cols E (cols x) = ?K" by simp
    next
      assume "partition_cols E (cols x) = ?K"
      with x sub show "row_id x \<in> row_id ` set ?G" by auto
    qed
    have "filter (\<lambda>q. row_id q \<in> row_id ` set ?G) (map ?st ?sel)
        = map ?st (filter (\<lambda>x. row_id x \<in> row_id ` set ?G) ?sel)"
      by (simp add: filter_map comp_def)
    also have "filter (\<lambda>x. row_id x \<in> row_id ` set ?G) ?sel
        = filter (\<lambda>x. partition_cols E (cols x) = ?K) ?sel"
      by (rule filter_cong [OF refl]) (rule mem)
    finally have "?lhs = map row_id (filter (\<lambda>x. partition_cols E (cols x) = ?K) ?sel)"
      by (simp add: comp_def)
    also have "\<dots> = ?rhs"
      by (simp add: duplicate_rows_by_key take_map [symmetric] map_sort_key)
    finally show ?thesis .
  qed
  have len: "length (filter (\<lambda>q. row_id q \<in> row_id `
                  set (filter (\<lambda>s. partition_cols E (cols s) = partition_cols E (cols r)) src))
               (map ?st ?sel))
          = (if 2 \<le> length (filter (\<lambda>s. partition_cols E (cols s) = partition_cols E (cols r)) src)
             then 2 else 0)"
    if r: "r \<in> set src" for r
  proof -
    have "length (map row_id (filter (\<lambda>q. row_id q \<in> row_id `
                  set (filter (\<lambda>s. partition_cols E (cols s) = partition_cols E (cols r)) src))
               (map ?st ?sel)))
          = (if 2 \<le> length (filter (\<lambda>s. partition_cols E (cols s) = partition_cols E (cols r)) src)
             then 2 else 0)"
      unfolding grp [OF r] by simp
    then show ?thesis by simp
  qed
  from extract_result [OF dist, of E] strict sub grp len show ?thesis by blast
qed


lemmas example_extract_simps = example_source_def example_row_def example_engine_def
  duplicate_rows_def ranked_def grp_count_def partition_cols_def NON_ID_COLUMNS_extract_def
  group_value_def

lemma example_duplicate_ids:
  "map row_id (duplicate_rows example_engine example_source) = [1, 2, 3, 6]"
  by (simp add: example_extract_simps)

theorem extraction_cap_witness:
  "distinct (map row_id example_source)
   \<and> map_sum id (\<lambda>(outdb, n). (map row_id outdb, n))
        (extract_duplicates_for_file example_engine example_source) = Inr ([1, 2, 3, 6], 4)"
proof -
  have d: "distinct (map row_id example_source)"
    by (simp add: example_source_def example_row_def)
  have "extract_duplicates_for_file example_engine example_source =
      Inr (map (\<lambda>r. \<lparr>row_id = row_id r, cols = stored example_engine (cols r)\<rparr>)
             (duplicate_rows example_engine example_source),
           int (length (duplicate_rows example_engine example_source)))"
    using extraction_cap [OF d, of example_engine] by (rule conjunct1)
  moreover have "length (duplicate_rows example_engine example_source) = 4"
    using arg_cong [OF example_duplicate_ids, of length] by simp
  ultimately show ?thesis using d example_duplicate_ids by (simp add: comp_def)
qed

lemma sum_two_if:
  "finite A \<Longrightarrow> (\<Sum>K\<in>A. if P K then 2 else 0) = 2 * card {K \<in> A. P K}"
  by (simp add: sum.If_cases Int_def)

text \<open>
  C9. The number of rows written for a source is twice the number of its partitions of at
  least two rows (the distinct partition keys of the rows whose partition has two rows or
  more), and so is even.
\<close>

theorem extraction_count_even:
  assumes "extract_duplicates_for_file E src = Inr (outdb, n)"
  shows "n = int (length outdb)
     \<and> n = 2 * int (card ((\<lambda>r. partition_cols E (cols r)) ` {r \<in> set src. 2 \<le> grp_count E src r}))
     \<and> even n"
proof -
  let ?k = "\<lambda>r. partition_cols E (cols r)"
  let ?sel = "duplicate_rows E src"
  let ?A = "?k ` set src"
  let ?cnt = "\<lambda>K. length (filter (\<lambda>s. ?k s = K) src)"
  from assms have ins: "insert_rows E [] ?sel = Inr outdb" and n: "n = int (length outdb)"
    by (auto simp: extract_duplicates_for_file_def split: sum.splits)
  from insert_rows_result [OF ins] have len: "length outdb = length ?sel" by simp
  have sub: "set ?sel \<subseteq> set src"
    by (simp only: duplicate_rows_selected selected_subset)
  then have img: "?k ` set ?sel \<subseteq> ?A" by blast
  have each: "length (filter (\<lambda>x. ?k x = K) ?sel) = (if 2 \<le> ?cnt K then 2 else 0)" for K
    by (simp add: duplicate_rows_by_key)
  have "length ?sel = (\<Sum>K\<in>?A. length (filter (\<lambda>x. ?k x = K) ?sel))"
    by (rule length_by_key [OF _ img]) simp
  also have "\<dots> = (\<Sum>K\<in>?A. if 2 \<le> ?cnt K then 2 else 0)"
    by (simp only: each)
  also have "\<dots> = 2 * card {K \<in> ?A. 2 \<le> ?cnt K}"
    by (rule sum_two_if) simp
  also have "{K \<in> ?A. 2 \<le> ?cnt K} = ?k ` {r \<in> set src. 2 \<le> grp_count E src r}"
    by (auto simp: grp_count_key)
  finally have "length ?sel = 2 * card (?k ` {r \<in> set src. 2 \<le> grp_count E src r})" .
  with n len show ?thesis by simp
qed

theorem extraction_count_even_witness:
  "extract_duplicates_for_file example_engine example_source
     = Inr (map (\<lambda>r. \<lparr>row_id = row_id r, cols = stored example_engine (cols r)\<rparr>)
              (duplicate_rows example_engine example_source), 4)
   \<and> card ((\<lambda>r. partition_cols example_engine (cols r)) `
          {r \<in> set example_source. 2 \<le> grp_count example_engine example_source r}) = 2
   \<and> even (4::int)"
proof -
  have d: "distinct (map row_id example_source)"
    by (simp add: example_source_def example_row_def)
  have l: "length (duplicate_rows example_engine example_source) = 4"
    using arg_cong [OF example_duplicate_ids, of length] by simp
  have run: "extract_duplicates_for_file example_engine example_source
     = Inr (map (\<lambda>r. \<lparr>row_id = row_id r, cols = stored example_engine (cols r)\<rparr>)
              (duplicate_rows example_engine example_source), 4)"
    using extract_result [OF d, of example_engine] l by simp
  from extraction_count_even [OF run]
  have "(4::int) = 2 * int (card ((\<lambda>r. partition_cols example_engine (cols r)) `
          {r \<in> set example_source. 2 \<le> grp_count example_engine example_source r}))"
    by (rule conjunct1 [OF conjunct2])
  then have "card ((\<lambda>r. partition_cols example_engine (cols r)) `
          {r \<in> set example_source. 2 \<le> grp_count example_engine example_source r}) = 2"
    by linarith
  with run show ?thesis by simp
qed

section \<open>The two tests of identity\<close>

declare dec_digits.simps [simp del]

lemma columns_shared: "NON_ID_COLUMNS_extract = NON_ID_COLUMNS"
  by (simp add: NON_ID_COLUMNS_extract_def NON_ID_COLUMNS_def)

lemma of_char_digit_char: "d < 10 \<Longrightarrow> of_char (digit_char d) = 48 + d"
  by (simp add: digit_char_def)

lemma dec_digits_value:
  "foldl (\<lambda>n c. 10 * n + (of_char c - 48)) 0 (dec_digits m) = m"
proof (induction m rule: dec_digits.induct)
  case (1 n)
  show ?case
  proof (cases "n < 10")
    case True
    then show ?thesis by (subst dec_digits.simps) (simp add: of_char_digit_char)
  next
    case False
    with 1 have IH: "foldl (\<lambda>n c. 10 * n + (of_char c - 48)) 0 (dec_digits (n div 10)) = n div 10"
      by simp
    have "n mod 10 < 10" by simp
    then have "of_char (digit_char (n mod 10)) = 48 + n mod 10" by (rule of_char_digit_char)
    with False IH show ?thesis
      by (subst dec_digits.simps) simp
  qed
qed

lemma dec_digits_inj: "dec_digits m = dec_digits n \<Longrightarrow> m = n"
  by (metis dec_digits_value)

lemma dec_digits_hd: "\<exists>d cs. d < 10 \<and> dec_digits n = digit_char d # cs"
proof (induction n rule: dec_digits.induct)
  case (1 n)
  show ?case
  proof (cases "n < 10")
    case True
    then have "dec_digits n = digit_char n # []" by (subst dec_digits.simps) simp
    with True show ?thesis by blast
  next
    case False
    with 1 obtain d cs where "d < 10" "dec_digits (n div 10) = digit_char d # cs" by blast
    with False have "dec_digits n = digit_char d # (cs @ [digit_char (n mod 10)])"
      by (subst dec_digits.simps) simp
    with \<open>d < 10\<close> show ?thesis by blast
  qed
qed

lemma digit_char_neq:
  assumes "d < 10"
  shows "digit_char d \<noteq> CHR ''-''" and "digit_char d \<noteq> CHR ''_''"
proof -
  have v: "of_char (digit_char d) = 48 + d" using assms by (rule of_char_digit_char)
  show "digit_char d \<noteq> CHR ''-''"
  proof
    assume "digit_char d = CHR ''-''"
    then have "of_char (digit_char d) = (of_char CHR ''-'' :: nat)" by (rule arg_cong)
    with v show False by simp
  qed
  show "digit_char d \<noteq> CHR ''_''"
  proof
    assume "digit_char d = CHR ''_''"
    then have "of_char (digit_char d) = (of_char CHR ''_'' :: nat)" by (rule arg_cong)
    with v assms show False by simp
  qed
qed


lemma dec_digits_no_minus: "dec_digits n \<noteq> CHR ''-'' # cs"
  using dec_digits_hd [of n] digit_char_neq(1) by force

lemma dec_text_inj: "dec_text i = dec_text j \<Longrightarrow> i = j"
proof -
  assume eq: "dec_text i = dec_text j"
  consider "i < 0" "j < 0" | "i < 0" "\<not> j < 0" | "\<not> i < 0" "j < 0" | "\<not> i < 0" "\<not> j < 0"
    by blast
  then show "i = j"
  proof cases
    case 1
    with eq have "dec_digits (nat (- i)) = dec_digits (nat (- j))" by (simp add: dec_text_def)
    then have "nat (- i) = nat (- j)" by (rule dec_digits_inj)
    with 1 show ?thesis by simp
  next
    case 2
    with eq have "dec_digits (nat j) = CHR ''-'' # dec_digits (nat (- i))"
      by (simp add: dec_text_def)
    then show ?thesis by (simp add: dec_digits_no_minus)
  next
    case 3
    with eq have "dec_digits (nat i) = CHR ''-'' # dec_digits (nat (- j))"
      by (simp add: dec_text_def)
    then show ?thesis by (simp add: dec_digits_no_minus)
  next
    case 4
    with eq have "dec_digits (nat i) = dec_digits (nat j)" by (simp add: dec_text_def)
    then have "nat i = nat j" by (rule dec_digits_inj)
    with 4 show ?thesis by simp
  qed
qed

lemma dec_text_not_sentinel: "dec_text i \<noteq> ''__NULL__''"
proof (cases "i < 0")
  case True
  then show ?thesis by (simp add: dec_text_def)
next
  case False
  obtain d cs where "d < 10" "dec_digits (nat i) = digit_char d # cs"
    using dec_digits_hd by blast
  with False digit_char_neq(2) [of d] show ?thesis by (auto simp: dec_text_def)
qed

lemma column_agreement:
  assumes "value_of_type t u" "value_of_type t v"
  shows "(ifnull (cast_text E (apply_affinity E t u)) (SText ''__NULL__'')
            = ifnull (cast_text E (apply_affinity E t v)) (SText ''__NULL__''))
         \<longleftrightarrow> (group_value E u = group_value E v)"
proof (cases t)
  case TEXT
  with assms show ?thesis
    by (cases u; cases v) (auto simp: group_value_def)
next
  case INTEGER
  with assms show ?thesis
    by (cases u; cases v)
      (auto simp: group_value_def dec_text_not_sentinel dec_text_not_sentinel [symmetric]
         dest: dec_text_inj)
next
  case FLOAT
  with assms show ?thesis
    by (cases u; cases v) (auto simp: group_value_def)
qed

text \<open>
  Where the index key holds the values exactly (NULL, texts other than the sentinel,
  integers) the two tests agree, and the two column lists are the same list.
\<close>

lemma tests_agree_on_text_and_integers:
  assumes ta: "declared_types a" and tb: "declared_types b"
  shows "(merge_duplicates E a b \<longleftrightarrow> same_partition E a b)
       \<and> NON_ID_COLUMNS_extract = NON_ID_COLUMNS"
proof -
  have col: "(ifnull (cast_text E (stored E a c)) (SText ''__NULL__'')
               = ifnull (cast_text E (stored E b c)) (SText ''__NULL__''))
             \<longleftrightarrow> (group_value E (a c) = group_value E (b c))"
    if c: "c \<in> set NON_ID_COLUMNS" for c
  proof -
    from ta tb c have "value_of_type (column_affinity c) (a c)"
      "value_of_type (column_affinity c) (b c)"
      by (simp_all add: declared_types_def list_all_iff)
    from column_agreement [OF this] show ?thesis by (simp add: stored_def)
  qed
  have "merge_duplicates E a b \<longleftrightarrow> dedup_expr E (stored E a) = dedup_expr E (stored E b)"
    by (simp add: merge_duplicates_def uq_conflict_iff)
  also have "\<dots> \<longleftrightarrow> (\<forall>c\<in>set NON_ID_COLUMNS.
      ifnull (cast_text E (stored E a c)) (SText ''__NULL__'')
        = ifnull (cast_text E (stored E b c)) (SText ''__NULL__''))"
    by (simp only: dedup_expr_def map_eq_conv)
  also have "\<dots> \<longleftrightarrow> (\<forall>c\<in>set NON_ID_COLUMNS. group_value E (a c) = group_value E (b c))"
    using col by blast
  also have "\<dots> \<longleftrightarrow> same_partition E a b"
    by (simp only: same_partition_def partition_cols_def columns_shared map_eq_conv)
  finally show ?thesis using columns_shared by blast
qed

text \<open>
  The index key holds a REAL by its text: two rows that differ only in \<open>pip\<close>, by REAL
  values that do not compare equal but are written as the same text, are duplicates for the
  merge and in different partitions for the extraction.
\<close>

lemma lossy_real_text_disagree:
  assumes same_text: "real_text E x = real_text E y"
    and neq: "group_value E (SReal x) \<noteq> group_value E (SReal y)"
  shows "merge_duplicates E (a(pip := SReal x)) (a(pip := SReal y))
       \<and> \<not> same_partition E (a(pip := SReal x)) (a(pip := SReal y))"
proof -
  have "stored E (a(pip := SReal z)) = (stored E a)(pip := SReal z)" for z
    by (auto simp: stored_def fun_eq_iff)
  then have key: "dedup_expr E (stored E (a(pip := SReal x)))
      = dedup_expr E (stored E (a(pip := SReal y)))"
    using same_text by (simp add: dedup_expr_def)
  have "pip \<in> set NON_ID_COLUMNS_extract" by (simp add: NON_ID_COLUMNS_extract_def)
  with neq have "partition_cols E (a(pip := SReal x)) \<noteq> partition_cols E (a(pip := SReal y))"
    by (auto simp: partition_cols_def)
  with key show ?thesis
    by (simp add: merge_duplicates_def uq_conflict_iff same_partition_def)
qed

lemmas example_identity_simps = merge_duplicates_def same_partition_def uq_conflict_def
  dedup_expr_def partition_cols_def NON_ID_COLUMNS_def NON_ID_COLUMNS_extract_def stored_def
  group_value_def example_engine_def example_row_def
  dec_text_def dec_digits.simps digit_char_def char_of_def bit_Suc_0_iff

text \<open>
  C2. The duplicate test of the merge and the grouping test of the extraction do not
  classify every pair of rows alike: a row with a NULL \<open>rsid\<close> and a row with the text
  \<open>__NULL__\<close> there, otherwise equal, are duplicates for the merge, which keeps only the
  first, and lie in different partitions for the extraction. The index key of the merge,
  a text made of each value, does not tell these rows apart, although they are not the
  same row.
\<close>

theorem identity_key_tests_disagree:
  "merge_duplicates example_engine
      (cols (example_row 1 ''chr1_100_A_G'' SNull))
      (cols (example_row 2 ''chr1_100_A_G'' (SText ''__NULL__'')))
   \<and> \<not> same_partition example_engine
      (cols (example_row 1 ''chr1_100_A_G'' SNull))
      (cols (example_row 2 ''chr1_100_A_G'' (SText ''__NULL__'')))"
  by (simp add: example_identity_simps)

text \<open>
  Values of differing storage class part the two tests as well: a text and the blob of
  the same bytes, and (in a source whose column is untyped) an integer and its decimal text.
\<close>

lemma storage_classes_disagree:
  "merge_duplicates example_engine
      (cols (example_row 1 ''chr1_100_A_G'' (SText ''rs12'')))
      (cols (example_row 2 ''chr1_100_A_G'' (SBlob ''rs12'')))
   \<and> \<not> same_partition example_engine
      (cols (example_row 1 ''chr1_100_A_G'' (SText ''rs12'')))
      (cols (example_row 2 ''chr1_100_A_G'' (SBlob ''rs12'')))
   \<and> merge_duplicates example_engine
      (cols (example_row 1 ''chr1_100_A_G'' (SText ''12'')))
      (cols (example_row 2 ''chr1_100_A_G'' (SInt 12)))
   \<and> \<not> same_partition example_engine
      (cols (example_row 1 ''chr1_100_A_G'' (SText ''12'')))
      (cols (example_row 2 ''chr1_100_A_G'' (SInt 12)))"
  by (simp add: example_identity_simps)

end
